theory Spec2Isabelle
  imports Main "HOL-Library.Word"
begin

section \<open>The device registry of the mesh node (mesh\_device.c)\<close>

text \<open>
  The registry is the module-level pointer \<open>node_list\<close> of mesh\_device.c. The model
  passes it explicitly: \<open>None\<close> is the null pointer, \<open>Some l\<close> an allocated
  \<open>struct mesh_device_list_type\<close>. The array \<open>node_list->list\<close> is \<open>None\<close> for a
  null pointer and otherwise the allocated buffer, whose length is its capacity; only
  its first \<open>entries_count - 1\<close> cells are registered nodes.

  Conventions of the embedding:
  \<^item> \<open>uint16_t\<close> counters are natural numbers, and the one increment that could wrap
    (\<open>entries_count++\<close> in \<open>mesh_device_add\<close>) is written modulo \<open>2^16\<close>;
    \<open>uint32_t\<close> timestamps are 32-bit words, so their subtraction wraps as in C;
  \<^item> \<open>os_zalloc\<close> may fail: every operation that allocates takes a flag \<open>alloc_ok\<close>
    that says whether the allocation of this call succeeds;
  \<^item> every read of \<open>system_get_time()\<close> within one call yields the argument \<open>now\<close>;
  \<^item> an input array \<open>nodes\<close> with its \<open>count\<close> is an optional list (\<open>None\<close> for a
    null pointer), \<open>count\<close> being its length;
  \<^item> the array accesses of the C code are in bounds in every registry that satisfies
    \<open>wf_list\<close> below, which the operations preserve; the theorems that depend on
    the contents of the list assume it.
\<close>

subsection \<open>Data\<close>

datatype mesh_device_mac_type =
  Mac "8 word" "8 word" "8 word" "8 word" "8 word" "8 word"

record mesh_device_node_type =
  mac_addr :: mesh_device_mac_type
  timestamp :: "32 word"

record mesh_device_list_type =
  entries_count :: nat
  root :: mesh_device_node_type
  list :: "mesh_device_node_type list option"

type_synonym node_list_ptr = "mesh_device_list_type option"

datatype fault = NullDeref | UseAfterFree

datatype 'a outcome = Returns 'a | Faults fault | Diverges

fun mac_bytes :: "mesh_device_mac_type \<Rightarrow> 8 word list" where
  "mac_bytes (Mac a b c d e f) = [a, b, c, d, e, f]"

definition sizeof_mac :: nat where
  "sizeof_mac = 6"

text \<open>\<open>os_memcmp p q n\<close>: zero when the first \<open>n\<close> bytes agree, else the sign of the
  first difference. With \<open>n = 0\<close> it is zero whatever the operands are. (The last
  equation, a length beyond the operands, is not met: the code compares addresses
  over at most their six bytes.)\<close>

fun os_memcmp :: "8 word list \<Rightarrow> 8 word list \<Rightarrow> nat \<Rightarrow> int" where
  "os_memcmp xs ys 0 = 0"
| "os_memcmp (x # xs) (y # ys) (Suc n) =
     (if x = y then os_memcmp xs ys n else if x < y then - 1 else 1)"
| "os_memcmp xs ys (Suc n) = 0"

text \<open>The comparison the code writes everywhere but in one place:
  \<open>os_memcmp(p, q, sizeof(struct mesh_device_mac_type)) == 0\<close>.\<close>

definition same_mac :: "mesh_device_mac_type \<Rightarrow> mesh_device_mac_type \<Rightarrow> bool" where
  "same_mac a b \<longleftrightarrow> os_memcmp (mac_bytes a) (mac_bytes b) sizeof_mac = 0"

definition zero_node :: mesh_device_node_type where
  "zero_node = \<lparr>mac_addr = Mac 0 0 0 0 0 0, timestamp = 0\<rparr>"

text \<open>The struct after \<open>os_zalloc\<close> or \<open>os_memset(node_list, 0, ...)\<close>.\<close>

definition zero_list :: mesh_device_list_type where
  "zero_list = \<lparr>entries_count = 0, root = zero_node, list = None\<rparr>"

definition buffer :: "mesh_device_list_type \<Rightarrow> mesh_device_node_type list" where
  "buffer l = (case list l of None \<Rightarrow> [] | Some b \<Rightarrow> b)"

text \<open>The cells \<open>list[0], ..., list[entries_count - 2]\<close> that the loops
  \<open>for (idx = 0; idx < node_list->entries_count-1; idx++)\<close> visit.\<close>

definition registered :: "mesh_device_list_type \<Rightarrow> mesh_device_node_type list" where
  "registered l = take (entries_count l - 1) (buffer l)"

text \<open>The index at which such a loop meets the address and leaves with \<open>break\<close>.\<close>

fun first_match :: "mesh_device_mac_type \<Rightarrow> mesh_device_node_type list \<Rightarrow> nat option" where
  "first_match a [] = None"
| "first_match a (e # es) =
     (if same_mac (mac_addr e) a then Some 0 else map_option Suc (first_match a es))"

subsection \<open>Operations\<close>

definition mesh_device_list_init :: "bool \<Rightarrow> node_list_ptr \<Rightarrow> node_list_ptr" where
  "mesh_device_list_init alloc_ok s =
     (case s of
        None \<Rightarrow> (if alloc_ok then Some zero_list else None)
      | Some l \<Rightarrow> Some l)"

definition mesh_device_list_release :: "node_list_ptr \<Rightarrow> node_list_ptr" where
  "mesh_device_list_release s = (case s of None \<Rightarrow> None | Some l \<Rightarrow> Some zero_list)"

definition mesh_device_list_search ::
  "mesh_device_mac_type option \<Rightarrow> node_list_ptr \<Rightarrow> bool" where
  "mesh_device_list_search node s =
     (case node of
        None \<Rightarrow> False
      | Some a \<Rightarrow>
          (case s of
             None \<Rightarrow> False
           | Some l \<Rightarrow>
               if entries_count l = 0 then False
               else if same_mac (mac_addr (root l)) a then True
               else first_match a (registered l) \<noteq> None))"

text \<open>\<open>mesh_device_list_get\<close> with non-null out-parameters: \<open>None\<close> is the return
  value false (the out-parameters are left alone), \<open>Some (nodes, count)\<close> is true with
  \<open>*nodes\<close> and \<open>*count\<close>. \<open>*nodes\<close> is the registry's own buffer, not a copy.\<close>

definition mesh_device_list_get ::
  "node_list_ptr \<Rightarrow> (mesh_device_node_type list option \<times> nat) option" where
  "mesh_device_list_get s =
     (case s of
        None \<Rightarrow> None
      | Some l \<Rightarrow>
          if entries_count l \<le> 1 \<or> list l = None then Some (None, 0)
          else Some (list l, entries_count l - 1))"

text \<open>\<open>mesh_device_root_get\<close> with a non-null out-parameter: \<open>None\<close> is the return
  value false, \<open>Some r\<close> is true with \<open>*root\<close> pointing to \<open>r\<close>.\<close>

definition mesh_device_root_get :: "node_list_ptr \<Rightarrow> mesh_device_node_type option" where
  "mesh_device_root_get s =
     (case s of
        None \<Rightarrow> None
      | Some l \<Rightarrow> if entries_count l = 0 then None else Some (root l))"

text \<open>Both assigning branches of \<open>mesh_device_root_set\<close> do the same: release the
  list, copy the address into the root, set the count to one.\<close>

definition adopt_root :: "mesh_device_mac_type \<Rightarrow> mesh_device_list_type" where
  "adopt_root a = zero_list\<lparr>root := (root zero_list)\<lparr>mac_addr := a\<rparr>, entries_count := 1\<rparr>"

text \<open>\<open>mesh_device_list_init\<close> does not check its allocation, and \<open>mesh_device_root_set\<close>
  reads \<open>node_list->entries_count\<close> right after it: a failed allocation is a null
  dereference.\<close>

definition mesh_device_root_set ::
  "bool \<Rightarrow> mesh_device_mac_type option \<Rightarrow> node_list_ptr \<Rightarrow> (bool \<times> node_list_ptr) outcome" where
  "mesh_device_root_set alloc_ok r s =
     (case r of
        None \<Rightarrow> Returns (False, s)
      | Some a \<Rightarrow>
          (case mesh_device_list_init alloc_ok s of
             None \<Rightarrow> Faults NullDeref
           | Some l \<Rightarrow>
               let l' = (if entries_count l = 0 then adopt_root a
                         else if \<not> same_mac (mac_addr (root l)) a then adopt_root a
                         else l)
               in Returns (same_mac (mac_addr (root l')) a, Some l')))"

text \<open>One round of the loop of \<open>mesh_device_update_timestamp\<close> for a node that
  \<open>mesh_device_list_search\<close> has found: the root is stamped if it matches, and so is
  the first matching cell of the list.\<close>

definition touch_entry ::
  "32 word \<Rightarrow> mesh_device_mac_type \<Rightarrow> mesh_device_list_type \<Rightarrow> mesh_device_list_type" where
  "touch_entry now a l =
     (let l1 = (if same_mac (mac_addr (root l)) a
                then l\<lparr>root := (root l)\<lparr>timestamp := now\<rparr>\<rparr> else l)
      in case first_match a (registered l1) of
           None \<Rightarrow> l1
         | Some idx \<Rightarrow>
             l1\<lparr>list := map_option (\<lambda>b. b[idx := (b ! idx)\<lparr>timestamp := now\<rparr>]) (list l1)\<rparr>)"

fun update_loop ::
  "32 word \<Rightarrow> mesh_device_mac_type list \<Rightarrow> mesh_device_list_type \<Rightarrow> mesh_device_list_type" where
  "update_loop now [] l = l"
| "update_loop now (a # rest) l =
     update_loop now rest
       (if mesh_device_list_search (Some a) (Some l) then touch_entry now a l else l)"

definition mesh_device_update_timestamp ::
  "mesh_device_mac_type list option \<Rightarrow> 32 word \<Rightarrow> node_list_ptr \<Rightarrow> bool \<times> node_list_ptr" where
  "mesh_device_update_timestamp nodes now s =
     (case nodes of
        None \<Rightarrow> (False, s)
      | Some ns \<Rightarrow>
          (case s of
             None \<Rightarrow> (False, s)
           | Some l \<Rightarrow>
               if entries_count l = 0 then (False, s)
               else (True, Some (update_loop now ns l))))"

text \<open>The first loop of \<open>mesh_device_add\<close>: how many input nodes the search does
  not find, each occurrence counted.\<close>

definition new_nodes_count :: "mesh_device_mac_type list \<Rightarrow> mesh_device_list_type \<Rightarrow> nat" where
  "new_nodes_count ns l =
     length (filter (\<lambda>a. \<not> mesh_device_list_search (Some a) (Some l)) ns)"

text \<open>The buffer \<open>buf\<close> of \<open>mesh_device_add\<close>: zeroed cells for the old and the new
  nodes, the old ones copied in when there is an old list and a node in it.\<close>

definition add_buffer :: "nat \<Rightarrow> mesh_device_list_type \<Rightarrow> mesh_device_node_type list" where
  "add_buffer n l =
     (case list l of
        None \<Rightarrow> replicate (entries_count l - 1 + n) zero_node
      | Some old \<Rightarrow>
          if entries_count l > 1 then take (entries_count l - 1) old @ replicate n zero_node
          else replicate (entries_count l - 1 + n) zero_node)"

text \<open>The second loop: a node the search does not find is written into the cell
  \<open>list[entries_count - 1]\<close> (its address only, the zeroed timestamp stays), and the
  count goes up. Should the count wrap to zero, the C code would write in front of
  the buffer; the theorems keep the count below \<open>2^16\<close>.\<close>

fun add_loop ::
  "mesh_device_mac_type list \<Rightarrow> mesh_device_list_type \<Rightarrow> mesh_device_list_type" where
  "add_loop [] l = l"
| "add_loop (a # rest) l =
     add_loop rest
       (if \<not> mesh_device_list_search (Some a) (Some l)
        then l\<lparr>list := map_option
                        (\<lambda>b. b[entries_count l - 1 := (b ! (entries_count l - 1))\<lparr>mac_addr := a\<rparr>])
                        (list l),
               entries_count := (entries_count l + 1) mod 65536\<rparr>
        else l)"

definition mesh_device_add ::
  "bool \<Rightarrow> mesh_device_mac_type list option \<Rightarrow> node_list_ptr \<Rightarrow> bool \<times> node_list_ptr" where
  "mesh_device_add alloc_ok nodes s =
     (case nodes of
        None \<Rightarrow> (False, s)
      | Some ns \<Rightarrow>
          (case s of
             None \<Rightarrow> (False, s)
           | Some l \<Rightarrow>
               if entries_count l < 1 then (False, s)
               else if length ns > 0 then
                 (let n = new_nodes_count ns l in
                  if n > 0 then
                    (if \<not> alloc_ok then (False, s)
                     else (True, Some (add_loop ns (l\<lparr>list := Some (add_buffer n l)\<rparr>))))
                  else (True, s))
               else (True, s)))"

text \<open>The \<open>os_memcpy\<close> of \<open>mesh_device_del\<close> that moves the cells behind \<open>idx\<close> one
  place to the front, when \<open>idx < entries_count - 2\<close>; \<open>n\<close> is \<open>entries_count\<close>.
  Source and destination overlap; the copy runs upwards.\<close>

definition del_shift :: "nat \<Rightarrow> nat \<Rightarrow> mesh_device_node_type list \<Rightarrow> mesh_device_node_type list" where
  "del_shift idx n b =
     (if idx < n - 2
      then take idx b @ take (n - 1 - (idx + 1)) (drop (idx + 1) b) @ drop (n - 2) b
      else b)"

text \<open>The \<open>for\<close> loop of \<open>mesh_device_del\<close> for one address.\<close>

definition del_entry :: "mesh_device_mac_type \<Rightarrow> mesh_device_list_type \<Rightarrow> mesh_device_list_type" where
  "del_entry a l =
     (case first_match a (registered l) of
        None \<Rightarrow> l
      | Some idx \<Rightarrow>
          l\<lparr>list := map_option (del_shift idx (entries_count l)) (list l),
            entries_count := entries_count l - 1\<rparr>)"

text \<open>The \<open>while\<close> loop of \<open>mesh_device_del\<close>. Its root test is written
  \<open>os_memcmp(&node_list->root.mac_addr, &nodes[i], sizeof(struct mesh_device_mac_type) == 0)\<close>:
  the length argument is the comparison \<open>sizeof(...) == 0\<close>. The index
  \<open>redundant_nodes_idx\<close> is incremented inside the \<open>if\<close> that the search guards, so
  the loop does not advance on a node the search does not find. The result is
  \<open>None\<close> when the loop does not end; the flag says whether it left through the
  \<open>return true\<close> of the root branch.\<close>

partial_function (option) del_loop ::
  "mesh_device_mac_type list \<Rightarrow> mesh_device_list_type \<Rightarrow> (bool \<times> mesh_device_list_type) option" where
  "del_loop ns l =
     (case ns of
        [] \<Rightarrow> Some (False, l)
      | a # rest \<Rightarrow>
          if mesh_device_list_search (Some a) (Some l) then
            (if os_memcmp (mac_bytes (mac_addr (root l))) (mac_bytes a)
                  (if sizeof_mac = 0 then 1 else 0) \<noteq> 0
             then Some (True, zero_list)
             else del_loop rest (del_entry a l))
          else del_loop ns l)"

declare del_loop.simps [code]

text \<open>The reallocation at the end of \<open>mesh_device_del\<close>; \<open>cpy\<close> is
  \<open>entries_count_cpy\<close>.\<close>

definition del_realloc ::
  "bool \<Rightarrow> nat \<Rightarrow> mesh_device_list_type \<Rightarrow> bool \<times> node_list_ptr" where
  "del_realloc alloc_ok cpy l =
     (if entries_count l \<noteq> cpy then
        (if entries_count l > 1 then
           (if \<not> alloc_ok then (False, Some l)
            else (True, Some (l\<lparr>list := Some (take (entries_count l - 1) (buffer l))\<rparr>)))
         else (True, Some (l\<lparr>list := None\<rparr>)))
      else (True, Some l))"

text \<open>\<open>None\<close>: the call does not return.\<close>

definition mesh_device_del ::
  "bool \<Rightarrow> mesh_device_mac_type list option \<Rightarrow> node_list_ptr \<Rightarrow> (bool \<times> node_list_ptr) option" where
  "mesh_device_del alloc_ok nodes s =
     (case nodes of
        None \<Rightarrow> Some (True, s)
      | Some ns \<Rightarrow>
          if length ns = 0 then Some (True, s)
          else
            (case s of
               None \<Rightarrow> Some (False, s)
             | Some l \<Rightarrow>
                 if entries_count l = 0 then Some (True, s)
                 else
                   (case del_loop ns l of
                      None \<Rightarrow> None
                    | Some (left, l') \<Rightarrow>
                        if left then Some (True, Some l')
                        else Some (del_realloc alloc_ok (entries_count l) l'))))"

text \<open>Whether a returned call of \<open>mesh_device_del\<close> has passed the old buffer to
  \<open>os_free\<close>: it does so when the count has changed, unless the replacement could not
  be allocated (the call has returned false before).\<close>

definition del_frees :: "mesh_device_list_type \<Rightarrow> bool \<times> node_list_ptr \<Rightarrow> bool" where
  "del_frees l r =
     (case r of
        (ok, None) \<Rightarrow> False
      | (ok, Some l') \<Rightarrow> ok \<and> entries_count l' \<noteq> entries_count l)"

section \<open>The topology test (mesh\_none.c)\<close>

text \<open>The test of the eviction loop,
  \<open>(system_get_time() - timestamp) / 1000 > SUB_NODE_TIMEOUT_THRESHOLD\<close>: an unsigned
  32-bit difference of microseconds, divided down to milliseconds. \<open>thr\<close> is the
  threshold.\<close>

definition stale :: "32 word \<Rightarrow> 32 word \<Rightarrow> mesh_device_node_type \<Rightarrow> bool" where
  "stale now thr e \<longleftrightarrow> (now - timestamp e) div 1000 > thr"

definition SUB_NODE_TIMEOUT_THRESHOLD :: "32 word" where
  "SUB_NODE_TIMEOUT_THRESHOLD = 30000"

text \<open>The loop \<open>while (dev_idx-- > 0)\<close> over \<open>node_list_list_cpy\<close>. That pointer is
  the registry's own buffer as \<open>mesh_device_list_get\<close> has handed it out, so a read
  through it sees the buffer as it is now, as long as \<open>mesh_device_del\<close> has not
  freed it; \<open>dangling\<close> says that it has, and then the read is a use after free.
  \<open>mesh_device_del\<close> is called on the address stored in the cell.\<close>

fun evict_loop ::
  "bool \<Rightarrow> 32 word \<Rightarrow> 32 word \<Rightarrow> nat \<Rightarrow> bool \<Rightarrow> mesh_device_list_type \<Rightarrow> node_list_ptr outcome" where
  "evict_loop alloc_ok now thr 0 dangling l = Returns (Some l)"
| "evict_loop alloc_ok now thr (Suc dev_idx) dangling l =
     (if dangling then Faults UseAfterFree
      else if stale now thr (buffer l ! dev_idx) then
        (case mesh_device_del alloc_ok (Some [mac_addr (buffer l ! dev_idx)]) (Some l) of
           None \<Rightarrow> Diverges
         | Some (ok, None) \<Rightarrow> Faults NullDeref
         | Some (ok, Some l') \<Rightarrow>
             evict_loop alloc_ok now thr dev_idx (del_frees l (ok, Some l')) l')
      else evict_loop alloc_ok now thr dev_idx False l)"

text \<open>The eviction step: \<open>mesh_device_list_get\<close> and the loop, as both
  \<open>mesh_parser_protocol_none\<close> and \<open>mesh_topology_test\<close> have it. When
  \<open>mesh_device_list_get\<close> returns false \<open>dev_idx\<close> is still zero, and the loop body
  does not run.\<close>

definition evict_stale :: "bool \<Rightarrow> 32 word \<Rightarrow> 32 word \<Rightarrow> node_list_ptr \<Rightarrow> node_list_ptr outcome" where
  "evict_stale alloc_ok now thr s =
     (case mesh_device_list_get s of
        None \<Rightarrow> Returns s
      | Some (None, dev_idx) \<Rightarrow> Returns s
      | Some (Some cpy, dev_idx) \<Rightarrow>
          (case s of
             None \<Rightarrow> Returns s
           | Some l \<Rightarrow> evict_loop alloc_ok now thr dev_idx False l))"

text \<open>Modelled from the spec: \<open>struct mesh_header_format\<close> and
  \<open>espconn_mesh_get_option\<close> belong to the mesh library and are not in the
  repository. The record holds what the handler reads of a message: its source
  address, and the values of its \<open>M_O_TOPO_RESP\<close> options (each a packed sequence of
  addresses), in the order in which \<open>espconn_mesh_get_option\<close> yields them for the
  indices 1, 2, ... up to the first index for which it returns false.\<close>

record mesh_header_format =
  src_addr :: mesh_device_mac_type
  topo_resp :: "8 word list list"

text \<open>\<open>option->ovalue\<close> read as an array of \<open>option->olen / 6\<close> addresses.\<close>

fun macs_of :: "8 word list \<Rightarrow> mesh_device_mac_type list" where
  "macs_of (a # b # c # d # e # f # rest) = Mac a b c d e f # macs_of rest"
| "macs_of bs = []"

fun topo_resp_loop ::
  "bool \<Rightarrow> 32 word \<Rightarrow> 8 word list list \<Rightarrow> node_list_ptr \<Rightarrow> node_list_ptr" where
  "topo_resp_loop alloc_ok now [] s = s"
| "topo_resp_loop alloc_ok now (ovalue # rest) s =
     topo_resp_loop alloc_ok now rest
       (case mesh_device_add alloc_ok (Some (macs_of ovalue)) s of
          (ok, s1) \<Rightarrow>
            if ok then snd (mesh_device_update_timestamp (Some (macs_of ovalue)) now s1)
            else s1)"

text \<open>The handler from the point where \<open>mesh_device_root_set\<close> has returned \<open>ok\<close>:
  the branch on \<open>ok\<close>, the loop over the options, the eviction.\<close>

definition after_root_set ::
  "bool \<Rightarrow> 32 word \<Rightarrow> 32 word \<Rightarrow> mesh_header_format \<Rightarrow> bool \<Rightarrow> node_list_ptr
     \<Rightarrow> node_list_ptr outcome" where
  "after_root_set alloc_ok now thr header ok s =
     evict_stale alloc_ok now thr
       (topo_resp_loop alloc_ok now (topo_resp header)
          (if ok then snd (mesh_device_update_timestamp (Some [src_addr header]) now s)
           else s))"

text \<open>\<open>data\<close> is the message the handler reads as a mesh header; \<open>mesh_header\<close> is
  only tested for null.\<close>

definition mesh_parser_protocol_none ::
  "bool \<Rightarrow> 32 word \<Rightarrow> 32 word \<Rightarrow> mesh_header_format option \<Rightarrow> mesh_header_format option
     \<Rightarrow> nat \<Rightarrow> node_list_ptr \<Rightarrow> node_list_ptr outcome" where
  "mesh_parser_protocol_none alloc_ok now thr mesh_header data len s =
     (case data of
        None \<Rightarrow> Returns s
      | Some header \<Rightarrow>
          if mesh_header = None \<or> len = 0 then Returns s
          else if topo_resp header = [] then Returns s
          else
            (case mesh_device_root_set alloc_ok (Some (src_addr header)) s of
               Returns (ok, s1) \<Rightarrow> after_root_set alloc_ok now thr header ok s1
             | Faults f \<Rightarrow> Faults f
             | Diverges \<Rightarrow> Diverges))"

section \<open>The parser (mesh\_parser.c)\<close>

type_synonym mesh_parser_protocol_handler =
  "mesh_header_format option \<Rightarrow> mesh_header_format option \<Rightarrow> nat \<Rightarrow> node_list_ptr
     \<Rightarrow> node_list_ptr outcome"

record mesh_parser_protocol_type =
  protocol :: "8 word"
  handler :: "mesh_parser_protocol_handler option"

text \<open>What the parser prints, and which table entry it has called.\<close>

datatype report =
  Invalid_parameters | Resolve_failed | No_handler | Not_supported | Invoked nat

text \<open>The loop over \<open>supported_protocols\<close> up to its \<open>break\<close>: the first entry
  with the protocol, and its index.\<close>

fun scan_protocols ::
  "mesh_parser_protocol_type list \<Rightarrow> 8 word \<Rightarrow> nat \<Rightarrow> (nat \<times> mesh_parser_protocol_type) option" where
  "scan_protocols [] p idx = None"
| "scan_protocols (e # es) p idx =
     (if protocol e = p then Some (idx, e) else scan_protocols es p (Suc idx))"

text \<open>\<open>mesh_packet_parser\<close> over a table \<open>supported\<close>. The two accessors of the mesh
  library are arguments: \<open>proto\<close> is what \<open>espconn_mesh_get_usr_data_proto\<close> resolves
  (\<open>None\<close> when it returns false), \<open>usr\<close> what \<open>espconn_mesh_get_usr_data\<close> yields.\<close>

definition mesh_packet_parser ::
  "mesh_parser_protocol_type list \<Rightarrow> 8 word option
     \<Rightarrow> (mesh_header_format option \<times> nat) option
     \<Rightarrow> unit option \<Rightarrow> mesh_header_format option \<Rightarrow> nat \<Rightarrow> node_list_ptr
     \<Rightarrow> report list \<times> node_list_ptr outcome" where
  "mesh_packet_parser supported proto usr arg data len s =
     (if arg = None \<or> data = None \<or> len = 0 then ([Invalid_parameters], Returns s)
      else
        (case proto of
           None \<Rightarrow> ([Resolve_failed], Returns s)
         | Some p \<Rightarrow>
             (case (case usr of None \<Rightarrow> (data, len) | Some u \<Rightarrow> u) of
                (usr_data, usr_data_len) \<Rightarrow>
                  (case scan_protocols supported p 0 of
                     None \<Rightarrow> ([Not_supported], Returns s)
                   | Some (idx, e) \<Rightarrow>
                       (case handler e of
                          None \<Rightarrow> ([No_handler], Returns s)
                        | Some h \<Rightarrow> ([Invoked idx], h data usr_data usr_data_len s))))))"

text \<open>The table of mesh\_parser.c, with its one entry. The tag \<open>M_PROTO_NONE\<close> is a
  constant of the mesh library's header and is the argument \<open>proto_none\<close>.\<close>

definition supported_protocols ::
  "8 word \<Rightarrow> bool \<Rightarrow> 32 word \<Rightarrow> 32 word \<Rightarrow> mesh_parser_protocol_type list" where
  "supported_protocols proto_none alloc_ok now thr =
     [\<lparr>protocol = proto_none, handler = Some (mesh_parser_protocol_none alloc_ok now thr)\<rparr>]"

section \<open>Well-formed registries\<close>

text \<open>The counter fits its type, and the cells the loops visit exist.\<close>

definition wf_list :: "mesh_device_list_type \<Rightarrow> bool" where
  "wf_list l \<longleftrightarrow>
     entries_count l < 65536 \<and> (entries_count l \<le> 1 \<or> entries_count l - 1 \<le> length (buffer l))"

text \<open>Whether a root is set, and the addresses the registry knows.\<close>

definition has_root :: "mesh_device_list_type \<Rightarrow> bool" where
  "has_root l \<longleftrightarrow> 0 < entries_count l"

definition member_addrs :: "mesh_device_list_type \<Rightarrow> mesh_device_mac_type list" where
  "member_addrs l = map mac_addr (registered l)"

text \<open>\<open>only_stamps A l l'\<close>: from \<open>l\<close> to \<open>l'\<close> nothing has changed but timestamps of
  entries whose address is in \<open>A\<close>.\<close>

definition only_stamps ::
  "mesh_device_mac_type set \<Rightarrow> mesh_device_list_type \<Rightarrow> mesh_device_list_type \<Rightarrow> bool" where
  "only_stamps A l l' \<longleftrightarrow>
     entries_count l' = entries_count l
     \<and> mac_addr (root l') = mac_addr (root l)
     \<and> map mac_addr (buffer l') = map mac_addr (buffer l)
     \<and> (mac_addr (root l) \<notin> A \<longrightarrow> root l' = root l)
     \<and> (\<forall>i<length (buffer l). mac_addr (buffer l ! i) \<notin> A \<longrightarrow> buffer l' ! i = buffer l ! i)"

text \<open>The input addresses that are not in \<open>K\<close>, each once, at the place of its
  first occurrence.\<close>

fun fresh_nodes :: "mesh_device_mac_type set \<Rightarrow> mesh_device_mac_type list \<Rightarrow> mesh_device_mac_type list" where
  "fresh_nodes K [] = []"
| "fresh_nodes K (a # rest) =
     (if a \<in> K then fresh_nodes K rest else a # fresh_nodes (insert a K) rest)"

text \<open>The addresses a registry holds: its root's and its members'.\<close>

definition known :: "mesh_device_list_type \<Rightarrow> mesh_device_mac_type set" where
  "known l = insert (mac_addr (root l)) (set (member_addrs l))"

definition new_entry :: "mesh_device_mac_type \<Rightarrow> mesh_device_node_type" where
  "new_entry a = \<lparr>mac_addr = a, timestamp = 0\<rparr>"

text \<open>Sequences of calls of \<open>mesh_device_root_set\<close> and \<open>mesh_device_add\<close> on non-null
  arguments, each with the flag of its allocation, and the registry they lead to.\<close>

datatype registry_call =
  Call_root_set bool mesh_device_mac_type
| Call_add bool "mesh_device_mac_type list"

fun run_calls :: "registry_call list \<Rightarrow> node_list_ptr \<Rightarrow> node_list_ptr outcome" where
  "run_calls [] s = Returns s"
| "run_calls (Call_root_set alloc_ok a # cs) s =
     (case mesh_device_root_set alloc_ok (Some a) s of
        Returns (ok, s') \<Rightarrow> run_calls cs s'
      | Faults f \<Rightarrow> Faults f
      | Diverges \<Rightarrow> Diverges)"
| "run_calls (Call_add alloc_ok ns # cs) s =
     run_calls cs (snd (mesh_device_add alloc_ok (Some ns) s))"

text \<open>The count that a call of \<open>mesh_device_add\<close> leaves, if it adds every input
  address that the search does not find once, stays below \<open>2^16\<close>: the increment
  \<open>entries_count++\<close> does not wrap.\<close>

definition add_fits :: "mesh_device_mac_type list \<Rightarrow> mesh_device_list_type \<Rightarrow> bool" where
  "add_fits ns l \<longleftrightarrow>
     entries_count l
       + length (remdups (filter (\<lambda>a. \<not> mesh_device_list_search (Some a) (Some l)) ns))
     < 65536"

text \<open>\<open>calls_fit cs s\<close>: in the run of \<open>cs\<close> from \<open>s\<close>, every call of
  \<open>mesh_device_add\<close> on an allocated registry meets \<open>add_fits\<close>. It bounds the size
  the registry reaches, not the length of the run.\<close>

fun calls_fit :: "registry_call list \<Rightarrow> node_list_ptr \<Rightarrow> bool" where
  "calls_fit [] s = True"
| "calls_fit (Call_root_set alloc_ok a # cs) s =
     (case mesh_device_root_set alloc_ok (Some a) s of
        Returns (ok, s') \<Rightarrow> calls_fit cs s'
      | Faults f \<Rightarrow> True
      | Diverges \<Rightarrow> True)"
| "calls_fit (Call_add alloc_ok ns # cs) s =
     ((case s of None \<Rightarrow> True | Some l \<Rightarrow> add_fits ns l)
      \<and> calls_fit cs (snd (mesh_device_add alloc_ok (Some ns) s)))"

text \<open>No address is both the root's and a member's, and none is a member's twice.
  (Without a root the list of members is empty.)\<close>

definition unique_addresses :: "mesh_device_list_type \<Rightarrow> bool" where
  "unique_addresses l \<longleftrightarrow> distinct (mac_addr (root l) # member_addrs l)"

definition unique_in :: "node_list_ptr \<Rightarrow> bool" where
  "unique_in s = (case s of None \<Rightarrow> True | Some l \<Rightarrow> unique_addresses l)"

section \<open>Example registries\<close>

text \<open>Addresses and registries at which the theorems below are instantiated.\<close>

definition addr_R :: mesh_device_mac_type where "addr_R = Mac 2 0 0 0 0 1"
definition addr_S :: mesh_device_mac_type where "addr_S = Mac 2 0 0 0 0 2"
definition addr_A :: mesh_device_mac_type where "addr_A = Mac 2 0 0 0 0 10"
definition addr_B :: mesh_device_mac_type where "addr_B = Mac 2 0 0 0 0 11"
definition addr_C :: mesh_device_mac_type where "addr_C = Mac 2 0 0 0 0 12"

definition example_registry :: mesh_device_list_type where
  "example_registry =
     \<lparr>entries_count = 3, root = \<lparr>mac_addr = addr_R, timestamp = 7\<rparr>,
      list = Some [\<lparr>mac_addr = addr_A, timestamp = 5\<rparr>, \<lparr>mac_addr = addr_B, timestamp = 6\<rparr>]\<rparr>"

definition rooted_only :: mesh_device_list_type where
  "rooted_only = \<lparr>entries_count = 1, root = \<lparr>mac_addr = addr_R, timestamp = 7\<rparr>, list = None\<rparr>"

definition example_calls :: "registry_call list" where
  "example_calls =
     [Call_root_set True addr_R, Call_add True [addr_A, addr_B, addr_A, addr_R],
      Call_root_set True addr_R, Call_add False [addr_C], Call_add True [addr_B, addr_C]]"

text \<open>Registries for the eviction, with timestamps in microseconds: one member past
  the threshold of 30000 ms and one within it at the time 40 s; one member that is
  30000001 microseconds old at the time 30001000; two members both past the
  threshold at the time 40 s.\<close>

definition aged_registry :: mesh_device_list_type where
  "aged_registry =
     \<lparr>entries_count = 3, root = \<lparr>mac_addr = addr_R, timestamp = 0\<rparr>,
      list = Some [\<lparr>mac_addr = addr_A, timestamp = 1000000\<rparr>,
                   \<lparr>mac_addr = addr_B, timestamp = 39000000\<rparr>]\<rparr>"

definition young_registry :: mesh_device_list_type where
  "young_registry =
     \<lparr>entries_count = 2, root = \<lparr>mac_addr = addr_R, timestamp = 0\<rparr>,
      list = Some [\<lparr>mac_addr = addr_A, timestamp = 999\<rparr>]\<rparr>"

definition silent_registry :: mesh_device_list_type where
  "silent_registry =
     \<lparr>entries_count = 3, root = \<lparr>mac_addr = addr_R, timestamp = 0\<rparr>,
      list = Some [\<lparr>mac_addr = addr_A, timestamp = 0\<rparr>, \<lparr>mac_addr = addr_B, timestamp = 0\<rparr>]\<rparr>"

text \<open>A topology response from \<open>addr_R\<close> with one option that lists \<open>addr_A\<close> and
  \<open>addr_B\<close>.\<close>

definition example_header :: mesh_header_format where
  "example_header = \<lparr>src_addr = addr_R, topo_resp = [[2, 0, 0, 0, 0, 10, 2, 0, 0, 0, 0, 11]]\<rparr>"

text \<open>Runs of any length on a registry that stays small: the root is set, and the
  same address is added again and again.\<close>

definition repeated_calls :: "nat \<Rightarrow> registry_call list" where
  "repeated_calls n = Call_root_set True addr_R # replicate (Suc n) (Call_add True [addr_A])"

section \<open>Properties\<close>

subsection \<open>Comparison, search and the loops\<close>

lemmas example_defs =
  addr_R_def addr_S_def addr_A_def addr_B_def addr_C_def example_registry_def rooted_only_def

lemma same_mac_iff [simp]: "same_mac a b \<longleftrightarrow> a = b"
  by (cases a; cases b) (simp add: same_mac_def sizeof_mac_def eval_nat_numeral)

lemma first_match_None: "first_match a es = None \<longleftrightarrow> a \<notin> set (map mac_addr es)"
  by (induction es) auto

lemma first_match_Some:
  "first_match a es = Some i \<Longrightarrow>
     i < length es \<and> mac_addr (es ! i) = a \<and> (\<forall>j<i. mac_addr (es ! j) \<noteq> a)"
proof (induction es arbitrary: i)
  case Nil
  then show ?case by simp
next
  case (Cons e es)
  show ?case
  proof (cases "mac_addr e = a")
    case True
    with Cons.prems show ?thesis by simp
  next
    case False
    with Cons.prems obtain k where k: "first_match a es = Some k" "i = Suc k"
      by auto
    from Cons.IH [OF k(1)] False k(2) show ?thesis
      by (auto simp: nth_Cons split: nat.splits)
  qed
qed

lemma search_iff:
  "mesh_device_list_search (Some a) (Some l) \<longleftrightarrow>
     has_root l \<and> (mac_addr (root l) = a \<or> a \<in> set (member_addrs l))"
  by (auto simp: mesh_device_list_search_def has_root_def member_addrs_def first_match_None)

lemma del_loop_Some_head:
  assumes "del_loop ns l = Some y"
  shows "\<forall>a rest. ns = a # rest \<longrightarrow> mesh_device_list_search (Some a) (Some l)"
  using assms
  by (rule del_loop.raw_induct [rotated]) (auto split: list.splits if_splits)

lemma del_loop_stuck:
  "\<not> mesh_device_list_search (Some a) (Some l) \<Longrightarrow> del_loop (a # rest) l = None"
  using del_loop_Some_head [of "a # rest" l] by (cases "del_loop (a # rest) l") auto

lemma root_test_dead [simp]:
  "os_memcmp (mac_bytes x) (mac_bytes y) (if sizeof_mac = 0 then 1 else 0) = 0"
  by (simp add: sizeof_mac_def)

lemma del_loop_Nil [simp]: "del_loop [] l = Some (False, l)"
  by (subst del_loop.simps) simp

lemma del_loop_found:
  "mesh_device_list_search (Some a) (Some l) \<Longrightarrow>
     del_loop (a # rest) l = del_loop rest (del_entry a l)"
  by (subst del_loop.simps) simp

lemma only_stamps_refl: "only_stamps A l l"
  by (simp add: only_stamps_def)

lemma only_stamps_trans:
  assumes "only_stamps A l l1" "only_stamps B l1 l2"
  shows "only_stamps (A \<union> B) l l2"
proof -
  have len: "length (buffer l1) = length (buffer l)"
    using assms(1) unfolding only_stamps_def by (metis length_map)
  have macs: "\<And>i. i < length (buffer l) \<Longrightarrow> mac_addr (buffer l1 ! i) = mac_addr (buffer l ! i)"
    using assms(1) len unfolding only_stamps_def by (metis nth_map)
  show ?thesis
    using assms len macs unfolding only_stamps_def by auto
qed

lemma registered_first_match_buffer:
  assumes "first_match a (registered l) = Some idx"
  shows "idx < length (buffer l) \<and> mac_addr (buffer l ! idx) = a"
proof -
  from first_match_Some [OF assms]
  have i: "idx < length (registered l)" and m: "mac_addr (registered l ! idx) = a"
    by auto
  from i have "idx < entries_count l - 1" "idx < length (buffer l)"
    by (simp_all add: registered_def)
  with m show ?thesis
    by (simp add: registered_def)
qed

lemma map_update_same:
  "idx < length b \<Longrightarrow> (map f b)[idx := f (b ! idx)] = map f b"
  by (simp add: list_eq_iff_nth_eq nth_list_update)

lemma touch_entry_only_stamps: "only_stamps {a} l (touch_entry now a l)"
proof -
  define l1 where "l1 = (if same_mac (mac_addr (root l)) a
                then l\<lparr>root := (root l)\<lparr>timestamp := now\<rparr>\<rparr> else l)"
  have s1: "only_stamps {a} l l1"
    by (simp add: l1_def only_stamps_def buffer_def)
  have s2: "only_stamps {a} l1 (touch_entry now a l)"
  proof (cases "first_match a (registered l1)")
    case None
    have "touch_entry now a l = l1"
      unfolding touch_entry_def Let_def l1_def [symmetric] using None by simp
    then show ?thesis
      by (simp add: only_stamps_refl)
  next
    case (Some idx)
    from registered_first_match_buffer [OF Some]
    have idx: "idx < length (buffer l1)" "mac_addr (buffer l1 ! idx) = a" by auto
    then obtain b where b: "list l1 = Some b" "buffer l1 = b"
      by (cases "list l1") (auto simp: buffer_def)
    have t: "touch_entry now a l = l1\<lparr>list := Some (b[idx := (b ! idx)\<lparr>timestamp := now\<rparr>])\<rparr>"
      unfolding touch_entry_def Let_def l1_def [symmetric] using Some b by simp
    show ?thesis
      unfolding t only_stamps_def using idx b
      by (auto simp: buffer_def map_update nth_list_update map_update_same)
  qed
  from only_stamps_trans [OF s1 s2] show ?thesis by simp
qed

lemma update_loop_only_stamps: "only_stamps (set ns) l (update_loop now ns l)"
proof (induction ns arbitrary: l)
  case Nil
  show ?case by (simp add: only_stamps_refl)
next
  case (Cons a ns)
  define l1 where "l1 = (if mesh_device_list_search (Some a) (Some l) then touch_entry now a l else l)"
  have "only_stamps {a} l l1"
    by (simp add: l1_def touch_entry_only_stamps only_stamps_refl)
  from only_stamps_trans [OF this Cons.IH [of l1]] show ?case
    by (simp add: l1_def)
qed

text \<open>Deleting the root's address changes nothing, and deleting an address the
  registry does not hold does not return, in every registry with a root.\<close>

lemma del_root_changes_nothing:
  assumes "has_root l" and "mac_addr (root l) \<notin> set (member_addrs l)"
  shows "mesh_device_del alloc_ok (Some [mac_addr (root l)]) (Some l) = Some (True, Some l)"
proof -
  have s: "mesh_device_list_search (Some (mac_addr (root l))) (Some l)"
    using assms(1) by (simp add: search_iff)
  have "first_match (mac_addr (root l)) (registered l) = None"
    using assms(2) by (simp add: first_match_None member_addrs_def)
  then have "del_entry (mac_addr (root l)) l = l"
    by (simp add: del_entry_def)
  then show ?thesis
    using assms(1)
    by (simp add: mesh_device_del_def del_loop_found [OF s] del_realloc_def has_root_def)
qed

lemma del_unknown_does_not_return:
  assumes "has_root l" and "a \<noteq> mac_addr (root l)" and "a \<notin> set (member_addrs l)"
  shows "mesh_device_del alloc_ok (Some (a # rest)) (Some l) = None"
proof -
  have "\<not> mesh_device_list_search (Some a) (Some l)"
    using assms by (auto simp: search_iff)
  then show ?thesis
    using assms(1) by (simp add: mesh_device_del_def del_loop_stuck has_root_def)
qed

lemma update_timestamp_wf:
  "wf_list l \<Longrightarrow> \<exists>l'. snd (mesh_device_update_timestamp nodes now (Some l)) = Some l' \<and> wf_list l'"
proof (cases nodes)
  case None
  assume "wf_list l"
  with None show ?thesis by (simp add: mesh_device_update_timestamp_def)
next
  case (Some ns)
  assume wf: "wf_list l"
  have "only_stamps (set ns) l (update_loop now ns l)"
    by (rule update_loop_only_stamps)
  then have "entries_count (update_loop now ns l) = entries_count l"
    "length (buffer (update_loop now ns l)) = length (buffer l)"
    unfolding only_stamps_def by (metis, metis length_map)
  with wf have "wf_list (update_loop now ns l)"
    by (simp add: wf_list_def)
  with wf Some show ?thesis
    by (simp add: mesh_device_update_timestamp_def)
qed

subsection \<open>Adding nodes\<close>

lemma remdups_snoc: "remdups (ys @ [a]) = remdups (filter (\<lambda>y. y \<noteq> a) ys) @ [a]"
  by (induction ys) auto

lemma fresh_nodes_eq:
  "fresh_nodes K ns = rev (remdups (rev (filter (\<lambda>a. a \<notin> K) ns)))"
proof (induction ns arbitrary: K)
  case Nil
  show ?case by simp
next
  case (Cons a ns)
  show ?case
  proof (cases "a \<in> K")
    case True
    then show ?thesis by (simp add: Cons.IH)
  next
    case False
    have "filter (\<lambda>y. y \<noteq> a) (rev (filter (\<lambda>a. a \<notin> K) ns)) = rev (filter (\<lambda>b. b \<notin> insert a K) ns)"
      by (simp add: rev_filter [symmetric] conj_commute)
    with False show ?thesis
      by (simp add: Cons.IH remdups_snoc)
  qed
qed

lemma fresh_nodes_length: "length (fresh_nodes K ns) \<le> length (filter (\<lambda>a. a \<notin> K) ns)"
proof (induction ns arbitrary: K)
  case Nil
  show ?case by simp
next
  case (Cons a ns)
  have "length (filter (\<lambda>b. b \<notin> insert a K) ns) \<le> length (filter (\<lambda>b. b \<notin> K) ns)"
    by (induction ns) auto
  with Cons.IH [of K] Cons.IH [of "insert a K"] show ?case
    by (auto simp: le_SucI)
qed

lemma fresh_nodes_length_le: "length (fresh_nodes K ns) \<le> length ns"
  using fresh_nodes_length [of K ns] length_filter_le [of "\<lambda>a. a \<notin> K" ns] by linarith

lemma fresh_nodes_set: "set (fresh_nodes K ns) = set ns - K"
  by (auto simp: fresh_nodes_eq)

lemma fresh_nodes_distinct: "distinct (fresh_nodes K ns)"
  by (simp add: fresh_nodes_eq)

lemma fresh_nodes_Nil: "fresh_nodes K ns = [] \<longleftrightarrow> set ns \<subseteq> K"
  using fresh_nodes_set [of K ns] by (metis Diff_eq_empty_iff set_empty)

lemma zero_node_mac [simp]: "zero_node\<lparr>mac_addr := a\<rparr> = new_entry a"
  by (simp add: zero_node_def new_entry_def)

lemma add_loop_spec:
  assumes "list l = Some (pre @ replicate k zero_node)"
    and "entries_count l = Suc (length pre)"
    and "length (fresh_nodes (known l) ns) \<le> k"
    and "Suc (length pre) + length (fresh_nodes (known l) ns) < 65536"
  shows "add_loop ns l =
           l\<lparr>list := Some (pre @ map new_entry (fresh_nodes (known l) ns)
                            @ replicate (k - length (fresh_nodes (known l) ns)) zero_node),
             entries_count := Suc (length pre) + length (fresh_nodes (known l) ns)\<rparr>"
  using assms
proof (induction ns arbitrary: l pre k)
  case Nil
  then show ?case by simp
next
  case (Cons a ns)
  have reg: "registered l = pre"
    using Cons.prems(1,2) by (simp add: registered_def buffer_def)
  have srch: "mesh_device_list_search (Some a) (Some l) \<longleftrightarrow> a \<in> known l"
    using Cons.prems(2) by (auto simp: search_iff known_def has_root_def)
  show ?case
  proof (cases "a \<in> known l")
    case True
    with Cons.prems srch Cons.IH [of l pre k] show ?thesis by simp
  next
    case False
    define l1 where "l1 = l\<lparr>list := Some (pre @ [new_entry a] @ replicate (k - 1) zero_node),
                            entries_count := Suc (Suc (length pre))\<rparr>"
    from False Cons.prems(3) have k: "0 < k" by auto
    then have rep: "replicate k zero_node = zero_node # replicate (k - 1) zero_node"
      by (cases k) auto
    from False Cons.prems(4) have lt: "Suc (Suc (length pre)) < 65536"
      by simp
    have step: "add_loop (a # ns) l = add_loop ns l1"
      using False srch Cons.prems(1,2) lt
      by (simp add: l1_def rep nth_append list_update_append)
    have "member_addrs l1 = member_addrs l @ [a]"
      using reg by (simp add: member_addrs_def l1_def registered_def buffer_def new_entry_def)
    then have kn: "known l1 = insert a (known l)"
      by (auto simp: known_def l1_def)
    have fr: "fresh_nodes (known l) (a # ns) = a # fresh_nodes (known l1) ns"
      using False by (simp add: kn)
    have "add_loop ns l1 =
           l1\<lparr>list := Some ((pre @ [new_entry a]) @ map new_entry (fresh_nodes (known l1) ns)
                            @ replicate (k - 1 - length (fresh_nodes (known l1) ns)) zero_node),
             entries_count := Suc (length (pre @ [new_entry a])) + length (fresh_nodes (known l1) ns)\<rparr>"
    proof (rule Cons.IH)
      show "list l1 = Some ((pre @ [new_entry a]) @ replicate (k - 1) zero_node)"
        by (simp add: l1_def)
      show "entries_count l1 = Suc (length (pre @ [new_entry a]))"
        by (simp add: l1_def)
      show "length (fresh_nodes (known l1) ns) \<le> k - 1"
        using Cons.prems(3) fr by simp
      show "Suc (length (pre @ [new_entry a])) + length (fresh_nodes (known l1) ns) < 65536"
        using Cons.prems(4) fr by simp
    qed
    with step fr show ?thesis
      by (simp add: l1_def)
  qed
qed

lemma wf_registered_length:
  "wf_list l \<Longrightarrow> length (registered l) = entries_count l - 1"
  by (auto simp: wf_list_def registered_def)

lemma add_buffer_wf:
  assumes "wf_list l"
  shows "add_buffer n l = registered l @ replicate n zero_node"
proof (cases "list l")
  case None
  with assms show ?thesis
    by (auto simp: add_buffer_def registered_def buffer_def wf_list_def)
next
  case (Some old)
  with assms show ?thesis
    by (auto simp: add_buffer_def registered_def buffer_def wf_list_def)
qed

lemma new_nodes_count_known:
  "has_root l \<Longrightarrow> new_nodes_count ns l = length (filter (\<lambda>a. a \<notin> known l) ns)"
proof -
  assume "has_root l"
  then have "(\<lambda>a. \<not> mesh_device_list_search (Some a) (Some l)) = (\<lambda>a. a \<notin> known l)"
    by (auto simp: search_iff known_def)
  then show ?thesis
    by (simp add: new_nodes_count_def)
qed

lemma filter_empty_fresh:
  "filter (\<lambda>a. a \<notin> K) ns = [] \<longleftrightarrow> fresh_nodes K ns = []"
  by (auto simp: fresh_nodes_Nil filter_empty_conv)

lemma add_characterised:
  assumes wf: "wf_list l" and r: "has_root l"
    and fit: "entries_count l + length (fresh_nodes (known l) ns) < 65536"
  shows "\<exists>l'. mesh_device_add True (Some ns) (Some l) = (True, Some l')
            \<and> registered l' = registered l @ map new_entry (fresh_nodes (known l) ns)
            \<and> root l' = root l
            \<and> entries_count l' = entries_count l + length (fresh_nodes (known l) ns)
            \<and> wf_list l'
            \<and> (fresh_nodes (known l) ns = [] \<longrightarrow> l' = l)"
proof (cases "fresh_nodes (known l) ns = []")
  case True
  then have "new_nodes_count ns l = 0"
    using r by (simp add: new_nodes_count_known filter_empty_fresh)
  then have "mesh_device_add True (Some ns) (Some l) = (True, Some l)"
    using r by (simp add: mesh_device_add_def has_root_def)
  with True wf show ?thesis by simp
next
  case False
  define F where "F = fresh_nodes (known l) ns"
  define n where "n = new_nodes_count ns l"
  define pre where "pre = registered l"
  define l2 where "l2 = l\<lparr>list := Some (pre @ replicate n zero_node)\<rparr>"
  have lp: "length pre = entries_count l - 1"
    using wf by (simp add: pre_def wf_registered_length)
  have c: "entries_count l = Suc (length pre)"
    using lp r by (simp add: has_root_def)
  have Fn: "length F \<le> n"
    using r by (simp add: F_def n_def new_nodes_count_known fresh_nodes_length)
  have n0: "0 < n"
    using False Fn by (cases n) (auto simp: F_def)
  have ns0: "0 < length ns"
    using False by (cases ns) auto
  have "registered l2 = pre"
    using c by (simp add: l2_def registered_def buffer_def)
  then have k2: "known l2 = known l"
    by (simp add: known_def member_addrs_def l2_def pre_def)
  have run: "mesh_device_add True (Some ns) (Some l) = (True, Some (add_loop ns l2))"
    using r n0 ns0 wf
    by (simp add: mesh_device_add_def has_root_def n_def [symmetric] l2_def pre_def add_buffer_wf)
  have "add_loop ns l2 =
          l2\<lparr>list := Some (pre @ map new_entry (fresh_nodes (known l2) ns)
                            @ replicate (n - length (fresh_nodes (known l2) ns)) zero_node),
             entries_count := Suc (length pre) + length (fresh_nodes (known l2) ns)\<rparr>"
  proof (rule add_loop_spec)
    show "list l2 = Some (pre @ replicate n zero_node)" by (simp add: l2_def)
    show "entries_count l2 = Suc (length pre)" using c by (simp add: l2_def)
    show "length (fresh_nodes (known l2) ns) \<le> n" using Fn by (simp add: k2 F_def)
    show "Suc (length pre) + length (fresh_nodes (known l2) ns) < 65536"
      using fit c by (simp add: k2)
  qed
  then have res: "add_loop ns l2 =
      l\<lparr>list := Some (pre @ map new_entry F @ replicate (n - length F) zero_node),
        entries_count := Suc (length pre) + length F\<rparr>"
    unfolding k2 F_def [symmetric] by (simp add: l2_def)
  from fit c have bound: "Suc (length pre) + length F < 65536"
    by (simp add: F_def)
  have "registered (add_loop ns l2) = pre @ map new_entry F"
    by (simp add: res registered_def buffer_def)
  moreover have "wf_list (add_loop ns l2)"
    using bound by (simp add: res wf_list_def buffer_def)
  ultimately show ?thesis
    using run False c by (simp add: res F_def [symmetric] pre_def)
qed

lemma add_failed_alloc:
  "has_root l \<Longrightarrow> mesh_device_add False (Some ns) (Some l) =
     (fresh_nodes (known l) ns = [], Some l)"
  using filter_empty_fresh [of "known l" ns]
  by (auto simp: mesh_device_add_def has_root_def new_nodes_count_known Let_def)

lemma add_no_root:
  "\<not> has_root l \<Longrightarrow> mesh_device_add alloc_ok (Some ns) (Some l) = (False, Some l)"
  by (simp add: mesh_device_add_def has_root_def)

lemma fresh_nodes_count:
  "length (fresh_nodes K ns) = length (remdups (filter (\<lambda>a. a \<notin> K) ns))"
  by (simp add: fresh_nodes_eq length_remdups_card_conv)

lemma add_fits_fresh:
  assumes "has_root l"
  shows "add_fits ns l \<longleftrightarrow> entries_count l + length (fresh_nodes (known l) ns) < 65536"
proof -
  from assms have "(\<lambda>a. \<not> mesh_device_list_search (Some a) (Some l)) = (\<lambda>a. a \<notin> known l)"
    by (auto simp: search_iff known_def)
  then show ?thesis
    by (simp add: add_fits_def fresh_nodes_count)
qed

lemma add_invariant:
  assumes wf: "wf_list l" and u: "unique_addresses l" and fit: "add_fits ns l"
  shows "\<exists>l'. snd (mesh_device_add alloc_ok (Some ns) (Some l)) = Some l'
           \<and> wf_list l' \<and> unique_addresses l'"
proof (cases "has_root l \<and> alloc_ok")
  case False
  then have "snd (mesh_device_add alloc_ok (Some ns) (Some l)) = Some l"
    by (cases "has_root l") (auto simp: add_failed_alloc add_no_root)
  with wf u show ?thesis by simp
next
  case True
  then have r: "has_root l" and a: "alloc_ok = True" by auto
  from fit r have fit': "entries_count l + length (fresh_nodes (known l) ns) < 65536"
    by (simp add: add_fits_fresh)
  from add_characterised [OF wf r fit'] obtain l' where l':
    "mesh_device_add True (Some ns) (Some l) = (True, Some l')"
    "registered l' = registered l @ map new_entry (fresh_nodes (known l) ns)"
    "root l' = root l"
    "wf_list l'"
    by blast
  have m: "member_addrs l' = member_addrs l @ fresh_nodes (known l) ns"
    using l'(2) by (simp add: member_addrs_def new_entry_def comp_def)
  have "unique_addresses l'"
    using u unfolding unique_addresses_def m l'(3)
    by (auto simp: fresh_nodes_distinct fresh_nodes_set known_def)
  with l' a show ?thesis
    by simp
qed

subsection \<open>Sequences of calls\<close>

lemma root_set_some:
  "mesh_device_root_set alloc_ok (Some a) (Some l) =
     Returns (True, Some (if has_root l \<and> mac_addr (root l) = a then l else adopt_root a))"
  by (simp add: mesh_device_root_set_def mesh_device_list_init_def has_root_def adopt_root_def
      zero_list_def zero_node_def)

lemma adopt_root_invariant:
  "wf_list (adopt_root a) \<and> unique_addresses (adopt_root a) \<and> entries_count (adopt_root a) = 1"
  by (simp add: adopt_root_def zero_list_def wf_list_def unique_addresses_def member_addrs_def
      registered_def)

lemma run_calls_allocated:
  assumes "wf_list l" and "unique_addresses l" and "calls_fit cs (Some l)"
  shows "\<exists>l'. run_calls cs (Some l) = Returns (Some l') \<and> wf_list l' \<and> unique_addresses l'"
  using assms
proof (induction cs arbitrary: l)
  case Nil
  then show ?case by simp
next
  case (Cons c cs)
  show ?case
  proof (cases c)
    case (Call_root_set alloc_ok a)
    define l1 where "l1 = (if has_root l \<and> mac_addr (root l) = a then l else adopt_root a)"
    have r: "mesh_device_root_set alloc_ok (Some a) (Some l) = Returns (True, Some l1)"
      by (simp add: root_set_some l1_def)
    have "wf_list l1" "unique_addresses l1"
      using Cons.prems(1,2) adopt_root_invariant [of a] by (auto simp: l1_def)
    moreover from Cons.prems(3) Call_root_set r have "calls_fit cs (Some l1)"
      by simp
    ultimately
    have "\<exists>l'. run_calls cs (Some l1) = Returns (Some l') \<and> wf_list l' \<and> unique_addresses l'"
      by (rule Cons.IH)
    with Call_root_set r show ?thesis
      by simp
  next
    case (Call_add alloc_ok ns)
    from Cons.prems(3) Call_add have fit: "add_fits ns l"
      and rest: "calls_fit cs (snd (mesh_device_add alloc_ok (Some ns) (Some l)))"
      by simp_all
    from add_invariant [OF Cons.prems(1,2) fit, of alloc_ok] obtain l1 where l1:
      "snd (mesh_device_add alloc_ok (Some ns) (Some l)) = Some l1"
      "wf_list l1" "unique_addresses l1"
      by blast
    from rest l1(1) have "calls_fit cs (Some l1)" by simp
    with l1(2,3)
    have "\<exists>l'. run_calls cs (Some l1) = Returns (Some l') \<and> wf_list l' \<and> unique_addresses l'"
      by (rule Cons.IH)
    with Call_add l1(1) show ?thesis by simp
  qed
qed

lemma run_calls_null:
  assumes "calls_fit cs None"
  shows "case run_calls cs None of
           Returns s \<Rightarrow> unique_in s
         | Faults f \<Rightarrow> f = NullDeref
         | Diverges \<Rightarrow> False"
  using assms
proof (induction cs)
  case Nil
  show ?case by (simp add: unique_in_def)
next
  case (Cons c cs)
  show ?case
  proof (cases c)
    case (Call_root_set alloc_ok a)
    show ?thesis
    proof (cases alloc_ok)
      case False
      with Call_root_set show ?thesis
        by (simp add: mesh_device_root_set_def mesh_device_list_init_def)
    next
      case True
      have r: "mesh_device_root_set True (Some a) None = Returns (True, Some (adopt_root a))"
        by (simp add: mesh_device_root_set_def mesh_device_list_init_def adopt_root_def
            zero_list_def zero_node_def)
      from Cons.prems Call_root_set True r have "calls_fit cs (Some (adopt_root a))"
        by simp
      with adopt_root_invariant [of a]
      have "\<exists>l'. run_calls cs (Some (adopt_root a)) = Returns (Some l') \<and> wf_list l'
              \<and> unique_addresses l'"
        by (intro run_calls_allocated) auto
      with Call_root_set True r show ?thesis
        by (auto simp: unique_in_def)
    qed
  next
    case (Call_add alloc_ok ns)
    have "mesh_device_add alloc_ok (Some ns) None = (False, None)"
      by (simp add: mesh_device_add_def)
    with Call_add Cons show ?thesis
      by simp
  qed
qed

lemmas registry_eval =
  mesh_device_add_def new_nodes_count_def search_iff has_root_def member_addrs_def
  registered_def buffer_def add_buffer_def zero_node_def

subsection \<open>Deleting a member\<close>

lemma del_shift_registered:
  assumes "idx < n - 1" and "n - 1 \<le> length b"
  shows "take (n - 2) (del_shift idx n b) = take idx (take (n - 1) b) @ drop (Suc idx) (take (n - 1) b)"
    and "length (del_shift idx n b) = length b"
proof -
  show "length (del_shift idx n b) = length b"
    using assms by (auto simp: del_shift_def)
  show "take (n - 2) (del_shift idx n b) = take idx (take (n - 1) b) @ drop (Suc idx) (take (n - 1) b)"
  proof (cases "idx < n - 2")
    case True
    define m where "m = n - 2 - idx"
    have n: "n - 2 = idx + m" "n - 1 = Suc (idx + m)" "n - 1 - (idx + 1) = m"
      using True by (simp_all add: m_def)
    have lb: "Suc (idx + m) \<le> length b"
      using assms(2) n by simp
    have l1: "length (take idx b) = idx" and l2: "length (take m (drop (Suc idx) b)) = m"
      using lb by simp_all
    have lhs: "take (idx + m) (take idx b @ take m (drop (Suc idx) b) @ drop (idx + m) b)
                 = take idx b @ take m (drop (Suc idx) b)"
      using l1 l2 by (simp add: take_add)
    have rhs: "take idx (take (Suc (idx + m)) b) @ drop (Suc idx) (take (Suc (idx + m)) b)
                 = take idx b @ take m (drop (Suc idx) b)"
      by (simp add: drop_take min_def)
    from True lhs rhs show ?thesis
      unfolding del_shift_def n by simp
  next
    case False
    with assms have "idx = n - 2" "n - 1 = Suc idx" by auto
    then show ?thesis
      using assms by (simp add: del_shift_def min_def)
  qed
qed

lemma del_entry_spec:
  assumes wf: "wf_list l" and fm: "first_match a (registered l) = Some idx"
  shows "registered (del_entry a l) = take idx (registered l) @ drop (Suc idx) (registered l)"
    and "root (del_entry a l) = root l"
    and "entries_count (del_entry a l) = entries_count l - 1"
    and "1 < entries_count l"
    and "wf_list (del_entry a l)"
proof -
  from first_match_Some [OF fm] have i: "idx < length (registered l)" by simp
  then have i2: "idx < entries_count l - 1" and nb: "buffer l \<noteq> []"
    by (auto simp: registered_def)
  then obtain b where b: "list l = Some b"
    by (cases "list l") (auto simp: buffer_def)
  from i2 show c: "1 < entries_count l" by simp
  from wf c b have len: "entries_count l - 1 \<le> length b"
    by (auto simp: wf_list_def buffer_def)
  have e: "del_entry a l = l\<lparr>list := Some (del_shift idx (entries_count l) b),
                             entries_count := entries_count l - 1\<rparr>"
    using fm b by (simp add: del_entry_def)
  show "root (del_entry a l) = root l" by (simp add: e)
  show "entries_count (del_entry a l) = entries_count l - 1" by (simp add: e)
  have "entries_count l - 1 - 1 = entries_count l - 2" by simp
  then show "registered (del_entry a l) = take idx (registered l) @ drop (Suc idx) (registered l)"
    using del_shift_registered(1) [OF i2 len] b
    by (simp add: e registered_def buffer_def)
  show "wf_list (del_entry a l)"
    using wf len del_shift_registered(2) [OF i2 len]
    by (auto simp: e wf_list_def buffer_def)
qed

lemma del_single:
  assumes "first_match a (registered l) = Some idx"
  shows "mesh_device_del alloc_ok (Some [a]) (Some l) =
           Some (del_realloc alloc_ok (entries_count l) (del_entry a l))"
proof -
  from first_match_Some [OF assms] have "idx < length (registered l)" by simp
  then have c: "1 < entries_count l" by (auto simp: registered_def)
  have s: "mesh_device_list_search (Some a) (Some l)"
    using assms c by (auto simp: mesh_device_list_search_def)
  show ?thesis
    using c by (simp add: mesh_device_del_def del_loop_found [OF s])
qed

lemma del_realloc_spec:
  assumes "wf_list l" and "entries_count l \<noteq> cpy"
  shows "\<exists>ok l'. del_realloc alloc_ok cpy l = (ok, Some l')
           \<and> registered l' = registered l \<and> root l' = root l
           \<and> entries_count l' = entries_count l \<and> wf_list l'
           \<and> (ok \<longleftrightarrow> alloc_ok \<or> entries_count l \<le> 1)"
  using assms
  by (auto simp: del_realloc_def registered_def buffer_def wf_list_def)

subsection \<open>The eviction loop\<close>

lemma evict_loop_skip:
  assumes "\<forall>i. 0 < i \<and> i < n \<longrightarrow> \<not> stale now thr (buffer l ! i)"
  shows "evict_loop alloc_ok now thr n False l = evict_loop alloc_ok now thr (min n 1) False l"
  using assms
proof (induction n)
  case 0
  show ?case by simp
next
  case (Suc n)
  show ?case
  proof (cases "n = 0")
    case True
    then show ?thesis by simp
  next
    case False
    then have m: "min n 1 = Suc 0" "min (Suc n) 1 = Suc 0"
      by simp_all
    from False Suc.prems have "\<not> stale now thr (buffer l ! n)" by simp
    then have "evict_loop alloc_ok now thr (Suc n) False l = evict_loop alloc_ok now thr n False l"
      by simp
    also from Suc.prems have "\<forall>i. 0 < i \<and> i < n \<longrightarrow> \<not> stale now thr (buffer l ! i)"
      by simp
    then have "evict_loop alloc_ok now thr n False l = evict_loop alloc_ok now thr (Suc 0) False l"
      using Suc.IH unfolding m by blast
    finally show ?thesis
      unfolding m .
  qed
qed

lemma first_match_head:
  "es \<noteq> [] \<Longrightarrow> first_match (mac_addr (es ! 0)) es = Some 0"
  by (cases es) auto

lemma evict_first:
  assumes wf: "wf_list l" and c: "1 < entries_count l"
  shows "\<exists>l'. evict_loop alloc_ok now thr (Suc 0) False l = Returns (Some l')
           \<and> registered l' = (if stale now thr (registered l ! 0) then tl (registered l) else registered l)
           \<and> root l' = root l
           \<and> has_root l'"
proof (cases "stale now thr (buffer l ! 0)")
  case False
  with c show ?thesis
    by (simp add: registered_def has_root_def)
next
  case True
  from wf c have ne: "registered l \<noteq> []" and h: "registered l ! 0 = buffer l ! 0"
    by (auto simp: registered_def wf_list_def)
  define a where "a = mac_addr (buffer l ! 0)"
  have fm: "first_match a (registered l) = Some 0"
    using first_match_head [OF ne] h by (simp add: a_def)
  note e = del_entry_spec [OF wf fm]
  have "entries_count (del_entry a l) \<noteq> entries_count l"
    using e(3,4) by simp
  from del_realloc_spec [OF e(5) this, of alloc_ok] obtain ok l' where l':
    "del_realloc alloc_ok (entries_count l) (del_entry a l) = (ok, Some l')"
    "registered l' = registered (del_entry a l)" "root l' = root (del_entry a l)"
    "entries_count l' = entries_count (del_entry a l)"
    by blast
  have "evict_loop alloc_ok now thr (Suc 0) False l = Returns (Some l')"
    using True l'(1) by (simp add: a_def [symmetric] del_single [OF fm])
  moreover have "registered l' = tl (registered l)"
    using l'(2) e(1) by (simp add: drop_Suc)
  moreover have "has_root l'"
    using l'(4) e(3) c by (simp add: has_root_def)
  ultimately show ?thesis
    using True h l'(3) e(2) by simp
qed

lemma evict_loop_numeral:
  "evict_loop alloc_ok now thr (numeral k) dangling l =
     evict_loop alloc_ok now thr (Suc (pred_numeral k)) dangling l"
  by (simp only: numeral_eq_Suc)

lemmas evict_eval = evict_loop_numeral
  evict_stale_def mesh_device_list_get_def stale_def SUB_NODE_TIMEOUT_THRESHOLD_def buffer_def
  registered_def mesh_device_del_def del_loop_found search_iff has_root_def member_addrs_def
  del_entry_def del_shift_def del_realloc_def del_frees_def

lemmas touch_eval =
  mesh_device_update_timestamp_def touch_entry_def Let_def

lemmas root_set_eval =
  mesh_device_root_set_def mesh_device_list_init_def adopt_root_def zero_list_def

text \<open>With two members past the threshold the loop deletes the second, which frees the
  buffer that \<open>node_list_list_cpy\<close> points to, and then reads the first through that
  pointer.\<close>

lemma evict_reads_freed_buffer:
  "evict_stale True 40000000 SUB_NODE_TIMEOUT_THRESHOLD (Some silent_registry)
     = Faults UseAfterFree"
  by (simp add: evict_eval example_defs silent_registry_def)

subsection \<open>Parser and handler\<close>

lemma scan_protocols_None:
  "scan_protocols es p k = None \<longleftrightarrow> p \<notin> protocol ` set es"
  by (induction es arbitrary: k) auto

lemma scan_protocols_find:
  "find (\<lambda>e. protocol e = p) es = Some e \<Longrightarrow> \<exists>i. scan_protocols es p k = Some (i, e)"
  by (induction es arbitrary: k) (auto split: if_splits)

lemma root_set_result:
  "mesh_device_root_set alloc_ok (Some a) s = Returns (ok, s') \<Longrightarrow>
     ok \<and> (\<exists>l. s' = Some l \<and> has_root l \<and> mac_addr (root l) = a)"
proof (cases s)
  case None
  assume "mesh_device_root_set alloc_ok (Some a) s = Returns (ok, s')"
  with None show ?thesis
    by (cases alloc_ok)
       (auto simp: mesh_device_root_set_def mesh_device_list_init_def adopt_root_def
          zero_list_def has_root_def new_entry_def)
next
  case (Some l)
  assume "mesh_device_root_set alloc_ok (Some a) s = Returns (ok, s')"
  with Some show ?thesis
    by (auto simp: root_set_some adopt_root_def zero_list_def has_root_def new_entry_def
        split: if_splits)
qed

subsection \<open>Runs of any length\<close>

lemma calls_fit_repeat_known:
  assumes "wf_list l" and "has_root l" and "a \<in> known l"
  shows "calls_fit (replicate n (Call_add True [a])) (Some l)"
proof (induction n)
  case 0
  show ?case by simp
next
  case (Suc n)
  from assms(3) have f: "fresh_nodes (known l) [a] = []"
    by simp
  from assms(1) have c: "entries_count l < 65536"
    by (simp add: wf_list_def)
  with f have fit: "entries_count l + length (fresh_nodes (known l) [a]) < 65536"
    by simp
  then have "add_fits [a] l"
    using assms(2) by (simp add: add_fits_fresh)
  moreover from add_characterised [OF assms(1,2) fit] f
  have "mesh_device_add True (Some [a]) (Some l) = (True, Some l)"
    by auto
  ultimately show ?case
    using Suc by simp
qed

lemma repeated_calls_fit: "calls_fit (repeated_calls n) None"
proof -
  define l1 where "l1 = \<lparr>entries_count = 2, root = \<lparr>mac_addr = addr_R, timestamp = 0\<rparr>,
      list = Some [\<lparr>mac_addr = addr_A, timestamp = 0\<rparr>]\<rparr>"
  have r: "mesh_device_root_set True (Some addr_R) None = Returns (True, Some (adopt_root addr_R))"
    by (simp add: mesh_device_root_set_def mesh_device_list_init_def adopt_root_def
        zero_list_def zero_node_def)
  have f: "add_fits [addr_A] (adopt_root addr_R)"
    by (simp add: add_fits_def root_set_eval search_iff has_root_def member_addrs_def
        registered_def buffer_def example_defs)
  have a: "mesh_device_add True (Some [addr_A]) (Some (adopt_root addr_R)) = (True, Some l1)"
    by (simp add: l1_def root_set_eval registry_eval new_entry_def example_defs)
  have "wf_list l1" "has_root l1" "addr_A \<in> known l1"
    by (simp_all add: l1_def wf_list_def has_root_def known_def member_addrs_def registered_def
        buffer_def)
  then have "calls_fit (replicate n (Call_add True [addr_A])) (Some l1)"
    by (rule calls_fit_repeat_known)
  with r f a show ?thesis
    by (simp add: repeated_calls_def)
qed

subsection \<open>The handler as a sequence\<close>

text \<open>\<open>mesh_device_root_set\<close> on the source address of a response does not return
  false, so for a message with a topology-response option the handler is the
  sequence of \<open>mesh_device_root_set\<close>, the timestamp update of the source address,
  the loop over the options, and the eviction.\<close>

lemma response_handling_sequence:
  assumes "mesh_header \<noteq> None" and "0 < len" and "topo_resp header \<noteq> []"
  shows "mesh_parser_protocol_none alloc_ok now thr mesh_header (Some header) len s =
          (case mesh_device_root_set alloc_ok (Some (src_addr header)) s of
             Returns (ok, s1) \<Rightarrow>
               evict_stale alloc_ok now thr
                 (topo_resp_loop alloc_ok now (topo_resp header)
                    (snd (mesh_device_update_timestamp (Some [src_addr header]) now s1)))
           | Faults f \<Rightarrow> Faults f
           | Diverges \<Rightarrow> Diverges)"
proof -
  have "\<forall>ok s'. mesh_device_root_set alloc_ok (Some (src_addr header)) s = Returns (ok, s') \<longrightarrow> ok"
    using root_set_result by blast
  with assms show ?thesis
    by (auto simp: mesh_parser_protocol_none_def after_root_set_def split: outcome.splits)
qed

subsection \<open>The claims\<close>

text \<open>C1. Calling \<open>mesh_device_del\<close> with the one-element list of the root's address
  is expected to clear the registry. Evaluated on a registry with root \<open>addr_R\<close> and
  the members \<open>addr_A\<close>, \<open>addr_B\<close>: the call returns true and the registry is as it
  was, the root still set and both members still listed. The root test of the loop
  compares zero bytes and never holds.\<close>

theorem del_root_leaves_registry:
  "mesh_device_del True (Some [addr_R]) (Some example_registry) = Some (True, Some example_registry)
   \<and> mesh_device_root_get (Some example_registry) = Some \<lparr>mac_addr = addr_R, timestamp = 7\<rparr>
   \<and> mesh_device_list_get (Some example_registry) = Some (list example_registry, 2)"
  by (simp add: mesh_device_del_def del_loop_found search_iff has_root_def member_addrs_def
      registered_def buffer_def del_entry_def del_realloc_def mesh_device_root_get_def
      mesh_device_list_get_def example_defs)

text \<open>C2. After every sequence of calls of \<open>mesh_device_add\<close> and
  \<open>mesh_device_root_set\<close>, however long, from the zeroed registry or from the null
  pointer, no address is both the root's and a member's and none is a member's
  twice. The one condition is that no call of \<open>mesh_device_add\<close> takes
  \<open>entries_count\<close> to \<open>2^16\<close>, where the counter wraps (\<open>calls_fit\<close>). From the
  zeroed registry the run returns; from the null pointer it returns, or ends in the
  null dereference of a \<open>mesh_device_root_set\<close> whose allocation fails.\<close>

theorem add_and_root_set_keep_addresses_unique:
  "(calls_fit cs (Some zero_list) \<longrightarrow>
      (\<exists>l. run_calls cs (Some zero_list) = Returns (Some l) \<and> unique_addresses l))
   \<and> (calls_fit cs None \<longrightarrow>
      (case run_calls cs None of
         Returns s \<Rightarrow> unique_in s
       | Faults f \<Rightarrow> f = NullDeref
       | Diverges \<Rightarrow> False))"
proof -
  have "wf_list zero_list" "unique_addresses zero_list"
    by (simp_all add: zero_list_def wf_list_def unique_addresses_def member_addrs_def
        registered_def)
  then have "calls_fit cs (Some zero_list) \<longrightarrow>
      (\<exists>l. run_calls cs (Some zero_list) = Returns (Some l) \<and> unique_addresses l)"
    using run_calls_allocated [of zero_list cs] by blast
  with run_calls_null [of cs] show ?thesis by blast
qed

theorem add_and_root_set_keep_addresses_unique_witness:
  "calls_fit example_calls (Some zero_list)
   \<and> calls_fit example_calls None
   \<and> (\<exists>l. run_calls example_calls (Some zero_list) = Returns (Some l) \<and> unique_addresses l)
   \<and> (case run_calls example_calls None of
            Returns s \<Rightarrow> unique_in s
          | Faults f \<Rightarrow> f = NullDeref
          | Diverges \<Rightarrow> False)
   \<and> (\<forall>n. calls_fit (repeated_calls n) None
          \<and> (case run_calls (repeated_calls n) None of
                Returns s \<Rightarrow> unique_in s
              | Faults f \<Rightarrow> f = NullDeref
              | Diverges \<Rightarrow> False))"
proof -
  have h: "calls_fit example_calls (Some zero_list)" "calls_fit example_calls None"
    by (simp_all add: example_calls_def add_fits_def root_set_eval registry_eval new_entry_def
        example_defs)
  have "\<forall>n. calls_fit (repeated_calls n) None
          \<and> (case run_calls (repeated_calls n) None of
                Returns s \<Rightarrow> unique_in s
              | Faults f \<Rightarrow> f = NullDeref
              | Diverges \<Rightarrow> False)"
    using add_and_root_set_keep_addresses_unique repeated_calls_fit by blast
  with add_and_root_set_keep_addresses_unique [of example_calls] h show ?thesis by simp
qed

text \<open>C3. \<open>mesh_device_del\<close> is expected to return for every input list and to leave
  the registry alone for an address that is neither the root nor a member. Evaluated
  on a registry with root \<open>addr_R\<close> and the input \<open>[addr_A]\<close>: the call does not
  return, as the loop index only advances for an address the search finds.\<close>

theorem del_unknown_address_diverges:
  "mesh_device_del True (Some [addr_A]) (Some rooted_only) = None"
  by (simp add: mesh_device_del_def del_loop_stuck search_iff has_root_def member_addrs_def
      registered_def buffer_def rooted_only_def example_defs)

text \<open>C4. In a registry with a root \<open>R\<close>, \<open>mesh_device_root_set\<close> on \<open>R\<close> returns
  true and changes nothing; on any other address \<open>S\<close> it returns true and leaves the
  registry with the root \<open>S\<close>, the count one and no list: the old root and all
  members are gone.\<close>

theorem root_set_on_rooted_registry:
  assumes "has_root l"
  shows "mesh_device_root_set alloc_ok (Some (mac_addr (root l))) (Some l) = Returns (True, Some l)
     \<and> (\<forall>S. S \<noteq> mac_addr (root l) \<longrightarrow>
          mesh_device_root_set alloc_ok (Some S) (Some l) =
            Returns (True, Some \<lparr>entries_count = 1, root = \<lparr>mac_addr = S, timestamp = 0\<rparr>, list = None\<rparr>))"
  using assms
  by (simp add: mesh_device_root_set_def mesh_device_list_init_def has_root_def adopt_root_def
      zero_list_def zero_node_def)

theorem root_set_on_rooted_registry_witness:
  "has_root example_registry
   \<and> mesh_device_root_set True (Some addr_R) (Some example_registry) = Returns (True, Some example_registry)
   \<and> mesh_device_root_set True (Some addr_S) (Some example_registry) =
        Returns (True, Some \<lparr>entries_count = 1, root = \<lparr>mac_addr = addr_S, timestamp = 0\<rparr>, list = None\<rparr>)
   \<and> mesh_device_root_get (Some \<lparr>entries_count = 1, root = \<lparr>mac_addr = addr_S, timestamp = 0\<rparr>, list = None\<rparr>)
        = Some \<lparr>mac_addr = addr_S, timestamp = 0\<rparr>
   \<and> mesh_device_list_get (Some \<lparr>entries_count = 1, root = \<lparr>mac_addr = addr_S, timestamp = 0\<rparr>, list = None\<rparr>)
        = Some (None, 0)"
proof -
  have h: "has_root example_registry"
    by (simp add: has_root_def example_registry_def)
  have r: "mac_addr (root example_registry) = addr_R"
    by (simp add: example_registry_def)
  have ne: "addr_S \<noteq> addr_R"
    by (simp add: addr_S_def addr_R_def)
  from root_set_on_rooted_registry [OF h, of True] r ne h show ?thesis
    by (simp add: mesh_device_root_get_def mesh_device_list_get_def)
qed

text \<open>C5. The eviction is expected to remove exactly the members with
  \<open>now - last_seen > threshold\<close>. The code compares the difference of the two
  microsecond timestamps, divided by 1000 and rounded down, with the threshold in
  milliseconds. A member stamped at 999 is, at the time 30001000, past the threshold
  of 30000 whether the difference is taken in microseconds or between the two times
  in whole milliseconds; the code computes 30000001 div 1000 = 30000 and keeps
  it.\<close>

theorem evict_keeps_member_past_threshold:
  "SUB_NODE_TIMEOUT_THRESHOLD < 30001000 - (999::32 word)
   \<and> SUB_NODE_TIMEOUT_THRESHOLD < 30001000 div 1000 - (999::32 word) div 1000
   \<and> evict_stale True 30001000 SUB_NODE_TIMEOUT_THRESHOLD (Some young_registry)
       = Returns (Some young_registry)"
  by (simp add: evict_eval example_defs young_registry_def)

text \<open>C5, amended. In a well-formed registry in which no member but the first listed
  is past the threshold, the eviction step returns and removes exactly the members
  with \<open>(now - last_seen) div 1000 > threshold\<close> (the difference taken in 32-bit
  unsigned arithmetic); the members that stay keep their timestamps and their
  order; the root entry is as before, however old its timestamp, and a registry
  with a root still has one. This holds whether or not the reallocation in
  \<open>mesh_device_del\<close> succeeds.\<close>

theorem evict_stale_when_only_first_is_stale:
  assumes "wf_list l"
    and "\<forall>i. 0 < i \<and> i < length (registered l) \<longrightarrow>
           \<not> thr < (now - timestamp (registered l ! i)) div 1000"
  shows "\<exists>l'. evict_stale alloc_ok now thr (Some l) = Returns (Some l')
           \<and> registered l' = filter (\<lambda>e. \<not> thr < (now - timestamp e) div 1000) (registered l)
           \<and> root l' = root l
           \<and> has_root l' = has_root l"
proof (cases "entries_count l \<le> 1 \<or> list l = None")
  case True
  then have "registered l = []"
    by (auto simp: registered_def buffer_def)
  with True show ?thesis
    by (auto simp: evict_stale_def mesh_device_list_get_def)
next
  case False
  then have c: "1 < entries_count l" by simp
  have len: "length (registered l) = entries_count l - 1"
    using assms(1) c by (auto simp: registered_def wf_list_def)
  have run: "evict_stale alloc_ok now thr (Some l) =
               evict_loop alloc_ok now thr (entries_count l - 1) False l"
    using False by (auto simp: evict_stale_def mesh_device_list_get_def)
  have rest: "\<forall>i. 0 < i \<and> i < entries_count l - 1 \<longrightarrow> \<not> stale now thr (buffer l ! i)"
  proof (intro allI impI)
    fix i assume i: "0 < i \<and> i < entries_count l - 1"
    then have "registered l ! i = buffer l ! i"
      by (simp add: registered_def)
    moreover from i len assms(2) have "\<not> thr < (now - timestamp (registered l ! i)) div 1000"
      by simp
    ultimately show "\<not> stale now thr (buffer l ! i)"
      by (simp add: stale_def)
  qed
  have m: "min (entries_count l - 1) 1 = Suc 0"
    using c by simp
  from evict_first [OF assms(1) c, of alloc_ok now thr] obtain l' where l':
    "evict_loop alloc_ok now thr (Suc 0) False l = Returns (Some l')"
    "registered l' = (if stale now thr (registered l ! 0) then tl (registered l) else registered l)"
    "root l' = root l" "has_root l'"
    by blast
  obtain e es where r: "registered l = e # es"
    using len c by (cases "registered l") auto
  have "\<forall>x\<in>set es. \<not> stale now thr x"
  proof
    fix x assume "x \<in> set es"
    then obtain j where "j < length es" "es ! j = x"
      by (auto simp: in_set_conv_nth)
    with assms(2) [rule_format, of "Suc j"] r show "\<not> stale now thr x"
      by (simp add: stale_def)
  qed
  then have "filter (\<lambda>e. \<not> stale now thr e) es = es"
    by (simp add: filter_id_conv)
  then have "registered l' = filter (\<lambda>e. \<not> stale now thr e) (registered l)"
    using l'(2) r by simp
  then have f: "registered l' =
      filter (\<lambda>e. \<not> thr < (now - timestamp e) div 1000) (registered l)"
    by (simp add: stale_def)
  have "evict_loop alloc_ok now thr (entries_count l - 1) False l =
          evict_loop alloc_ok now thr (Suc 0) False l"
    using evict_loop_skip [OF rest, of alloc_ok] unfolding m .
  then have "evict_stale alloc_ok now thr (Some l) = Returns (Some l')"
    unfolding run l'(1) .
  moreover have "has_root l' = has_root l"
    using l'(4) c by (simp add: has_root_def)
  ultimately show ?thesis
    using f l'(3) by blast
qed

theorem evict_stale_when_only_first_is_stale_witness:
  "wf_list aged_registry
   \<and> length (registered aged_registry) = 2
   \<and> \<not> SUB_NODE_TIMEOUT_THRESHOLD < (40000000 - timestamp (registered aged_registry ! 1)) div 1000
   \<and> SUB_NODE_TIMEOUT_THRESHOLD < (40000000 - timestamp (registered aged_registry ! 0)) div 1000
   \<and> SUB_NODE_TIMEOUT_THRESHOLD < (40000000 - timestamp (root aged_registry)) div 1000
   \<and> (\<exists>l'. evict_stale True 40000000 SUB_NODE_TIMEOUT_THRESHOLD (Some aged_registry) = Returns (Some l')
          \<and> registered l' = [\<lparr>mac_addr = addr_B, timestamp = 39000000\<rparr>]
          \<and> root l' = \<lparr>mac_addr = addr_R, timestamp = 0\<rparr>
          \<and> has_root l')"
proof -
  have w: "wf_list aged_registry"
    by (simp add: wf_list_def buffer_def aged_registry_def)
  have r: "registered aged_registry =
      [\<lparr>mac_addr = addr_A, timestamp = 1000000\<rparr>, \<lparr>mac_addr = addr_B, timestamp = 39000000\<rparr>]"
    by (simp add: registered_def buffer_def aged_registry_def)
  have h: "\<forall>i. 0 < i \<and> i < length (registered aged_registry) \<longrightarrow>
           \<not> SUB_NODE_TIMEOUT_THRESHOLD < (40000000 - timestamp (registered aged_registry ! i)) div 1000"
  proof (intro allI impI)
    fix i :: nat assume "0 < i \<and> i < length (registered aged_registry)"
    then have "i = 1" by (simp add: r)
    then show "\<not> SUB_NODE_TIMEOUT_THRESHOLD < (40000000 - timestamp (registered aged_registry ! i)) div 1000"
      by (simp add: r SUB_NODE_TIMEOUT_THRESHOLD_def)
  qed
  from evict_stale_when_only_first_is_stale [OF w h, of True] obtain l' where l':
    "evict_stale True 40000000 SUB_NODE_TIMEOUT_THRESHOLD (Some aged_registry) = Returns (Some l')"
    "registered l' =
       filter (\<lambda>e. \<not> SUB_NODE_TIMEOUT_THRESHOLD < (40000000 - timestamp e) div 1000)
         (registered aged_registry)"
    "root l' = root aged_registry" "has_root l' = has_root aged_registry"
    by blast
  have "registered l' = [\<lparr>mac_addr = addr_B, timestamp = 39000000\<rparr>]"
    unfolding l'(2) r by (simp add: SUB_NODE_TIMEOUT_THRESHOLD_def)
  moreover have "root l' = \<lparr>mac_addr = addr_R, timestamp = 0\<rparr>" "has_root l'"
    using l'(3,4) by (simp_all add: aged_registry_def has_root_def)
  moreover have "length (registered aged_registry) = 2"
    "\<not> SUB_NODE_TIMEOUT_THRESHOLD < (40000000 - timestamp (registered aged_registry ! 1)) div 1000"
    "SUB_NODE_TIMEOUT_THRESHOLD < (40000000 - timestamp (registered aged_registry ! 0)) div 1000"
    "SUB_NODE_TIMEOUT_THRESHOLD < (40000000 - timestamp (root aged_registry)) div 1000"
    unfolding r by (simp_all add: SUB_NODE_TIMEOUT_THRESHOLD_def aged_registry_def)
  ultimately show ?thesis
    using w l'(1) by blast
qed

text \<open>C6. \<open>mesh_device_add\<close> is expected to give each new entry the current time and
  to return the number of entries added. It returns the flag true, and the new cell
  keeps the zero timestamp of the zeroed buffer: adding \<open>addr_C\<close> to the example
  registry, at whatever time (say 100), yields the entry with timestamp 0 and not the
  one with timestamp 100.\<close>

theorem add_leaves_timestamp_zero:
  "mesh_device_add True (Some [addr_C]) (Some example_registry) =
     (True, Some \<lparr>entries_count = 4, root = \<lparr>mac_addr = addr_R, timestamp = 7\<rparr>,
        list = Some [\<lparr>mac_addr = addr_A, timestamp = 5\<rparr>, \<lparr>mac_addr = addr_B, timestamp = 6\<rparr>,
                     \<lparr>mac_addr = addr_C, timestamp = 0\<rparr>]\<rparr>)
   \<and> mesh_device_add True (Some [addr_C]) (Some example_registry) \<noteq>
     (True, Some \<lparr>entries_count = 4, root = \<lparr>mac_addr = addr_R, timestamp = 7\<rparr>,
        list = Some [\<lparr>mac_addr = addr_A, timestamp = 5\<rparr>, \<lparr>mac_addr = addr_B, timestamp = 6\<rparr>,
                     \<lparr>mac_addr = addr_C, timestamp = 100\<rparr>]\<rparr>)"
  by (simp add: registry_eval example_defs)

text \<open>C6, amended. In a well-formed registry with a root, and with an allocation that
  succeeds, \<open>mesh_device_add\<close> returns true and appends one entry with timestamp zero
  for each input address that is neither the root's nor a member's, each address
  once, in the order of the first occurrences in the input; the root and the entries
  already registered stay as they are, timestamps included; the count grows by the
  number of appended entries; and when every input address is already present the
  registry is unchanged. (\<open>rev (remdups (rev xs))\<close> keeps the first occurrence of
  each element of \<open>xs\<close>.)\<close>

theorem add_appends_unstamped:
  assumes "wf_list l" and "has_root l" and "entries_count l + length ns < 65536"
  shows "\<exists>l'. mesh_device_add True (Some ns) (Some l) = (True, Some l')
     \<and> registered l' =
         registered l @
         map (\<lambda>a. \<lparr>mac_addr = a, timestamp = 0\<rparr>)
           (rev (remdups (rev (filter (\<lambda>a. a \<noteq> mac_addr (root l) \<and> a \<notin> set (member_addrs l)) ns))))
     \<and> root l' = root l
     \<and> entries_count l' =
         entries_count l +
         length (remdups (filter (\<lambda>a. a \<noteq> mac_addr (root l) \<and> a \<notin> set (member_addrs l)) ns))
     \<and> (set ns \<subseteq> insert (mac_addr (root l)) (set (member_addrs l)) \<longrightarrow> l' = l)"
proof -
  have p: "(\<lambda>a. a \<notin> known l) = (\<lambda>a. a \<noteq> mac_addr (root l) \<and> a \<notin> set (member_addrs l))"
    by (auto simp: known_def)
  have n: "new_entry = (\<lambda>a. \<lparr>mac_addr = a, timestamp = 0\<rparr>)"
    by (auto simp: new_entry_def)
  have len: "length (rev (remdups (rev xs))) = length (remdups xs)" for xs :: "mesh_device_mac_type list"
    by (simp add: length_remdups_card_conv)
  from assms(3) fresh_nodes_length_le [of "known l" ns]
  have fit: "entries_count l + length (fresh_nodes (known l) ns) < 65536"
    by simp
  from add_characterised [OF assms(1,2) fit] obtain l' where
    "mesh_device_add True (Some ns) (Some l) = (True, Some l')"
    "registered l' = registered l @ map new_entry (fresh_nodes (known l) ns)"
    "root l' = root l"
    "entries_count l' = entries_count l + length (fresh_nodes (known l) ns)"
    "fresh_nodes (known l) ns = [] \<longrightarrow> l' = l"
    by blast
  then show ?thesis
    unfolding fresh_nodes_Nil unfolding fresh_nodes_eq p n len
    by (auto simp: known_def)
qed

theorem add_appends_unstamped_witness:
  "wf_list example_registry \<and> has_root example_registry
   \<and> entries_count example_registry + length [addr_C, addr_A, addr_C, addr_R, addr_S] < 65536
   \<and> (\<exists>l'. mesh_device_add True (Some [addr_C, addr_A, addr_C, addr_R, addr_S]) (Some example_registry)
              = (True, Some l')
        \<and> registered l' =
            [\<lparr>mac_addr = addr_A, timestamp = 5\<rparr>, \<lparr>mac_addr = addr_B, timestamp = 6\<rparr>,
             \<lparr>mac_addr = addr_C, timestamp = 0\<rparr>, \<lparr>mac_addr = addr_S, timestamp = 0\<rparr>]
        \<and> root l' = \<lparr>mac_addr = addr_R, timestamp = 7\<rparr>
        \<and> entries_count l' = 5)
   \<and> set [addr_B, addr_R] \<subseteq> insert (mac_addr (root example_registry)) (set (member_addrs example_registry))
   \<and> mesh_device_add True (Some [addr_B, addr_R]) (Some example_registry) = (True, Some example_registry)"
proof -
  have h: "wf_list example_registry" "has_root example_registry"
    "entries_count example_registry + length [addr_C, addr_A, addr_C, addr_R, addr_S] < 65536"
    "entries_count example_registry + length [addr_B, addr_R] < 65536"
    by (simp_all add: wf_list_def has_root_def buffer_def example_registry_def)
  have s: "set [addr_B, addr_R] \<subseteq>
      insert (mac_addr (root example_registry)) (set (member_addrs example_registry))"
    by (simp add: member_addrs_def registered_def buffer_def example_registry_def)
  from add_appends_unstamped [OF h(1,2,4)] s
  have 2: "mesh_device_add True (Some [addr_B, addr_R]) (Some example_registry) = (True, Some example_registry)"
    by auto
  from add_appends_unstamped [OF h(1,2,3)] h s 2 show ?thesis
    by (simp add: member_addrs_def registered_def buffer_def example_defs)
qed



text \<open>C8. For a message whose protocol is in no entry of the table, and for one whose
  protocol the scan of the table first meets in an entry without a handler,
  \<open>mesh_packet_parser\<close> calls no handler, returns to its caller, and leaves the
  registry as it was; it reports that the protocol is not supported, or that no
  handler is available (or, for a null argument or a zero length, that the
  parameters are invalid).\<close>

theorem parser_drops_unhandled_protocol:
  assumes "p \<notin> protocol ` set supported
           \<or> (\<exists>e. find (\<lambda>e. protocol e = p) supported = Some e \<and> handler e = None)"
  shows "mesh_packet_parser supported (Some p) usr arg data len s =
           (if arg = None \<or> data = None \<or> len = 0 then [Invalid_parameters]
            else if p \<notin> protocol ` set supported then [Not_supported]
            else [No_handler],
            Returns s)"
proof (cases "p \<in> protocol ` set supported")
  case False
  then have "scan_protocols supported p 0 = None"
    by (simp add: scan_protocols_None)
  with False show ?thesis
    by (simp add: mesh_packet_parser_def split: option.splits prod.splits)
next
  case True
  with assms obtain e where e: "find (\<lambda>e. protocol e = p) supported = Some e" "handler e = None"
    by blast
  from scan_protocols_find [OF e(1), of 0] obtain i where "scan_protocols supported p 0 = Some (i, e)"
    by blast
  with True e(2) show ?thesis
    by (simp add: mesh_packet_parser_def split: option.splits prod.splits)
qed

theorem parser_drops_unhandled_protocol_witness:
  "(1::8 word) \<notin> protocol ` set (supported_protocols 0 True 0 SUB_NODE_TIMEOUT_THRESHOLD)
   \<and> mesh_packet_parser (supported_protocols 0 True 0 SUB_NODE_TIMEOUT_THRESHOLD) (Some 1) None
        (Some ()) (Some example_header) 32 (Some young_registry)
      = ([Not_supported], Returns (Some young_registry))
   \<and> find (\<lambda>e. protocol e = 0) [\<lparr>protocol = 0, handler = None\<rparr>]
        = Some \<lparr>protocol = 0, handler = None\<rparr>
   \<and> mesh_packet_parser [\<lparr>protocol = 0, handler = None\<rparr>] (Some 0) None
        (Some ()) (Some example_header) 32 (Some young_registry)
      = ([No_handler], Returns (Some young_registry))"
proof -
  have a: "(1::8 word) \<notin> protocol ` set (supported_protocols 0 True 0 SUB_NODE_TIMEOUT_THRESHOLD)"
    by (simp add: supported_protocols_def)
  have b: "find (\<lambda>e. protocol e = 0) [\<lparr>protocol = 0, handler = None\<rparr>]
        = Some \<lparr>protocol = 0, handler = None\<rparr>"
    by simp
  have c: "\<exists>e. find (\<lambda>e. protocol e = 0) [\<lparr>protocol = 0, handler = None\<rparr>]
        = Some e \<and> handler e = None"
    by simp
  from parser_drops_unhandled_protocol [OF disjI1, OF a, of None "Some ()" "Some example_header" 32
      "Some young_registry"]
    parser_drops_unhandled_protocol [OF disjI2, OF c, of None "Some ()" "Some example_header" 32
      "Some young_registry"]
    a b
  show ?thesis by simp
qed

text \<open>Before the registry is allocated (\<open>node_list\<close> is null),
  \<open>mesh_device_root_set\<close> with an allocation that succeeds allocates it and returns
  true with the given address as the root and no members; search, get, root get, add,
  update timestamp and delete return without a fault and leave the pointer null, each
  with the return value false but for delete on a null or empty input, which returns
  true.\<close>

lemma uninitialised_registry:
  "mesh_device_root_set True (Some a) None =
     Returns (True, Some \<lparr>entries_count = 1, root = \<lparr>mac_addr = a, timestamp = 0\<rparr>, list = None\<rparr>)
   \<and> mesh_device_list_get (Some \<lparr>entries_count = 1, root = \<lparr>mac_addr = a, timestamp = 0\<rparr>, list = None\<rparr>)
       = Some (None, 0)
   \<and> mesh_device_root_set alloc_ok None None = Returns (False, None)
   \<and> mesh_device_list_search node None = False
   \<and> mesh_device_list_get None = None
   \<and> mesh_device_root_get None = None
   \<and> mesh_device_add alloc_ok nodes None = (False, None)
   \<and> mesh_device_update_timestamp nodes now None = (False, None)
   \<and> mesh_device_del alloc_ok nodes None = Some (nodes = None \<or> nodes = Some [], None)
   \<and> mesh_device_list_release None = None"
  by (simp add: mesh_device_root_set_def mesh_device_list_init_def adopt_root_def
      zero_list_def zero_node_def mesh_device_list_search_def mesh_device_list_get_def
      mesh_device_root_get_def mesh_device_add_def mesh_device_update_timestamp_def
      mesh_device_del_def mesh_device_list_release_def split: option.splits)

text \<open>C9. Every operation is expected to return, without a fault, on a registry that
  is not yet allocated. \<open>mesh_device_root_set\<close> does not when \<open>os_zalloc\<close> fails:
  \<open>mesh_device_list_init\<close> leaves \<open>node_list\<close> null without a check, and the next
  statement of \<open>mesh_device_root_set\<close> reads \<open>node_list->entries_count\<close>.
  (\<open>mesh_device_add\<close> and \<open>mesh_device_del\<close> check the result of their
  allocations.)\<close>

theorem root_set_dereferences_failed_allocation:
  "mesh_device_list_init False None = None
   \<and> mesh_device_root_set False (Some addr_R) None = Faults NullDeref"
  by (simp add: mesh_device_root_set_def mesh_device_list_init_def)

text \<open>C10. \<open>mesh_device_update_timestamp\<close> changes nothing but timestamps of entries
  whose address is in the input: the count, the root's address, and the addresses of
  all cells in their order stay, the root keeps its entry when its address is not in
  the input, and so does every cell whose address is not in the input. On a null
  input or a null registry it changes nothing at all.\<close>

theorem update_timestamp_frame:
  "mesh_device_update_timestamp None now s = (False, s)
   \<and> mesh_device_update_timestamp (Some ns) now None = (False, None)
   \<and> (\<exists>l'. snd (mesh_device_update_timestamp (Some ns) now (Some l)) = Some l'
        \<and> entries_count l' = entries_count l
        \<and> mac_addr (root l') = mac_addr (root l)
        \<and> map mac_addr (buffer l') = map mac_addr (buffer l)
        \<and> map mac_addr (registered l') = map mac_addr (registered l)
        \<and> (mac_addr (root l) \<notin> set ns \<longrightarrow> root l' = root l)
        \<and> (\<forall>i<length (buffer l). mac_addr (buffer l ! i) \<notin> set ns \<longrightarrow> buffer l' ! i = buffer l ! i))"
proof -
  define l' where "l' = (if entries_count l = 0 then l else update_loop now ns l)"
  have r: "snd (mesh_device_update_timestamp (Some ns) now (Some l)) = Some l'"
    by (simp add: mesh_device_update_timestamp_def l'_def)
  have o: "only_stamps (set ns) l l'"
    by (simp add: l'_def only_stamps_refl update_loop_only_stamps)
  then have "map mac_addr (registered l') = map mac_addr (registered l)"
    by (simp add: only_stamps_def registered_def take_map [symmetric])
  with r o show ?thesis
    by (simp add: only_stamps_def mesh_device_update_timestamp_def)
qed

theorem update_timestamp_frame_witness:
  "addr_R \<notin> set [addr_A]
   \<and> mac_addr (buffer example_registry ! 1) \<notin> set [addr_A]
   \<and> (\<exists>l'. snd (mesh_device_update_timestamp (Some [addr_A]) 100 (Some example_registry)) = Some l'
        \<and> entries_count l' = 3
        \<and> root l' = \<lparr>mac_addr = addr_R, timestamp = 7\<rparr>
        \<and> map mac_addr (registered l') = [addr_A, addr_B]
        \<and> buffer l' ! 1 = \<lparr>mac_addr = addr_B, timestamp = 6\<rparr>)"
proof -
  have r: "mac_addr (root example_registry) \<notin> set [addr_A]"
    by (simp add: example_defs)
  have b: "(1::nat) < length (buffer example_registry)"
    "mac_addr (buffer example_registry ! 1) \<notin> set [addr_A]"
    by (simp_all add: example_defs buffer_def)
  from update_timestamp_frame [of 100 "Some example_registry" "[addr_A]" example_registry]
  obtain l' where l':
    "snd (mesh_device_update_timestamp (Some [addr_A]) 100 (Some example_registry)) = Some l'"
    "entries_count l' = entries_count example_registry"
    "map mac_addr (registered l') = map mac_addr (registered example_registry)"
    "mac_addr (root example_registry) \<notin> set [addr_A] \<longrightarrow> root l' = root example_registry"
    "\<forall>i<length (buffer example_registry).
        mac_addr (buffer example_registry ! i) \<notin> set [addr_A] \<longrightarrow>
        buffer l' ! i = buffer example_registry ! i"
    by blast
  from l'(4) r have "root l' = root example_registry" by blast
  moreover from l'(5) b have "buffer l' ! 1 = buffer example_registry ! 1" by blast
  ultimately show ?thesis
    using l'(1,2,3) r b
    by (simp add: example_defs buffer_def registered_def)
qed

end
